theory Spec2Isabelle
  imports Complex_Main "HOL-Library.Sublist" "HOL-Library.AList" "HOL-Library.Log_Nat"
begin

section \<open>The syntax tree handed over by the parser\<close>

text \<open>
  The metrics engine of \<^verbatim>\<open>server.js\<close> never builds a tree: the parser does, and the
  engine only reads a node's \<^verbatim>\<open>type\<close>, a few string properties (\<^verbatim>\<open>name\<close>,
  \<^verbatim>\<open>operator\<close>), its position information and its child nodes. A child sits either in
  a named slot of its parent (\<^verbatim>\<open>path.key === 'alternate'\<close>) or in a list slot, where the
  key is the index. The children are kept in the order in which the traversal visits them.
\<close>

datatype key = Field string | Elem string nat

record pos =
  pstart :: "nat option"
  pend :: "nat option"
  line_start :: "nat option"
  line_end :: "nat option"

datatype node =
  Node (ntype: string) (sprops: "(string \<times> string) list") (npos: pos)
       (kids: "(key \<times> node) list")

definition sprop :: "node \<Rightarrow> string \<Rightarrow> string option" where
  "sprop n p = map_of (sprops n) p"

definition field :: "node \<Rightarrow> string \<Rightarrow> node option" where
  "field n f = map_of (kids n) (Field f)"

text \<open>The type predicates of the traversal library that the engine calls.\<close>

definition function_types :: "string list" where
  "function_types = [''FunctionDeclaration'', ''FunctionExpression'',
     ''ArrowFunctionExpression'', ''ObjectMethod'', ''ClassMethod'', ''ClassPrivateMethod'']"

definition isFunction :: "node \<Rightarrow> bool" where
  "isFunction n = (ntype n \<in> set function_types)"

definition isIfStatement :: "node \<Rightarrow> bool" where
  "isIfStatement n = (ntype n = ''IfStatement'')"

definition isSwitchStatement :: "node \<Rightarrow> bool" where
  "isSwitchStatement n = (ntype n = ''SwitchStatement'')"

definition isSwitchCase :: "node \<Rightarrow> bool" where
  "isSwitchCase n = (ntype n = ''SwitchCase'')"

definition isForStatement :: "node \<Rightarrow> bool" where
  "isForStatement n = (ntype n = ''ForStatement'')"

definition isForInStatement :: "node \<Rightarrow> bool" where
  "isForInStatement n = (ntype n = ''ForInStatement'')"

definition isForOfStatement :: "node \<Rightarrow> bool" where
  "isForOfStatement n = (ntype n = ''ForOfStatement'')"

definition isWhileStatement :: "node \<Rightarrow> bool" where
  "isWhileStatement n = (ntype n = ''WhileStatement'')"

definition isDoWhileStatement :: "node \<Rightarrow> bool" where
  "isDoWhileStatement n = (ntype n = ''DoWhileStatement'')"

definition isCatchClause :: "node \<Rightarrow> bool" where
  "isCatchClause n = (ntype n = ''CatchClause'')"

definition isLogicalExpression :: "node \<Rightarrow> bool" where
  "isLogicalExpression n = (ntype n = ''LogicalExpression'')"

definition isConditionalExpression :: "node \<Rightarrow> bool" where
  "isConditionalExpression n = (ntype n = ''ConditionalExpression'')"

definition isCallExpression :: "node \<Rightarrow> bool" where
  "isCallExpression n = (ntype n = ''CallExpression'')"

definition isBreakStatement :: "node \<Rightarrow> bool" where
  "isBreakStatement n = (ntype n = ''BreakStatement'')"

definition isContinueStatement :: "node \<Rightarrow> bool" where
  "isContinueStatement n = (ntype n = ''ContinueStatement'')"

definition isLoop :: "node \<Rightarrow> bool" where
  "isLoop n = (isForStatement n \<or> isForInStatement n \<or> isForOfStatement n \<or>
     isWhileStatement n \<or> isDoWhileStatement n)"

section \<open>The complexity scorer: \<^verbatim>\<open>calculateCognitiveComplexity\<close>\<close>

text \<open>
  The two counters that the source closes over, \<^verbatim>\<open>complexity\<close> and \<^verbatim>\<open>nesting\<close>, are
  threaded through the walk as a state. Both are JavaScript numbers holding integers.
\<close>

record counters =
  complexity :: int
  nesting :: int

definition addStructural :: "counters \<Rightarrow> counters" where
  "addStructural s = s\<lparr>complexity := complexity s + (1 + nesting s)\<rparr>"

definition addFundamental :: "counters \<Rightarrow> counters" where
  "addFundamental s = s\<lparr>complexity := complexity s + 1\<rparr>"

definition incNesting :: "counters \<Rightarrow> counters" where
  "incNesting s = s\<lparr>nesting := nesting s + 1\<rparr>"

definition decNesting :: "counters \<Rightarrow> counters" where
  "decNesting s = s\<lparr>nesting := nesting s - 1\<rparr>"

text \<open>\<^verbatim>\<open>functionName\<close> defaults to \<^verbatim>\<open>null\<close>; the test \<^verbatim>\<open>&& functionName\<close> asks for a
  non-empty string.\<close>

definition truthy_name :: "string option \<Rightarrow> bool" where
  "truthy_name fn = (case fn of None \<Rightarrow> False | Some s \<Rightarrow> s \<noteq> [])"

text \<open>\<^verbatim>\<open>callee.type === 'Identifier' && callee.name === functionName\<close>. The parser gives
  every call a callee; a tree without one matches nothing here.\<close>

definition calls_by_name :: "string option \<Rightarrow> node \<Rightarrow> bool" where
  "calls_by_name fn n =
     (case field n ''callee'' of
        None \<Rightarrow> False
      | Some c \<Rightarrow> ntype c = ''Identifier'' \<and> sprop c ''name'' = fn)"

text \<open>\<^verbatim>\<open>path.key === 'alternate' && path.parentPath.isIfStatement()\<close>\<close>

definition isElseIf :: "node \<Rightarrow> key \<Rightarrow> bool" where
  "isElseIf par k = (k = Field ''alternate'' \<and> isIfStatement par)"

text \<open>\<^verbatim>\<open>path.node.alternate && path.node.alternate.type !== 'IfStatement'\<close>\<close>

definition has_plain_else :: "node \<Rightarrow> bool" where
  "has_plain_else n =
     (case field n ''alternate'' of
        None \<Rightarrow> False
      | Some a \<Rightarrow> ntype a \<noteq> ''IfStatement'')"

definition counted_operator :: "string option \<Rightarrow> bool" where
  "counted_operator op = (op = Some ''&&'' \<or> op = Some ''||'' \<or> op = Some ''??'')"

text \<open>The \<^verbatim>\<open>enter\<close> handler, after the test for a nested function.\<close>

definition enter :: "string option \<Rightarrow> node \<Rightarrow> key \<Rightarrow> node \<Rightarrow> counters \<Rightarrow> counters" where
  "enter functionName par k n s0 =
    (let s1 = (if isCallExpression n \<and> truthy_name functionName \<and> calls_by_name functionName n
               then addFundamental s0 else s0);
         s2 = (if (isBreakStatement n \<or> isContinueStatement n) \<and> field n ''label'' \<noteq> None
               then addFundamental s1 else s1)
     in
       if isIfStatement n then
         (let s3 = (if isElseIf par k
                    then s2\<lparr>complexity := complexity s2 + (1 + (nesting s2 - 1))\<rparr>
                    else incNesting (addStructural s2))
          in if has_plain_else n then addFundamental s3 else s3)
       else if isSwitchStatement n then incNesting s2
       else if isSwitchCase n then addFundamental s2
       else if isLoop n then incNesting (addStructural s2)
       else if isCatchClause n then incNesting (addStructural s2)
       else if isLogicalExpression n then
         (if counted_operator (sprop n ''operator'') then
            (if \<not> isLogicalExpression par \<or> sprop par ''operator'' \<noteq> sprop n ''operator''
             then addFundamental s2 else s2)
          else s2)
       else if isConditionalExpression n then incNesting (addStructural s2)
       else s2)"

text \<open>The \<^verbatim>\<open>exit\<close> handler.\<close>

definition exit :: "node \<Rightarrow> key \<Rightarrow> node \<Rightarrow> counters \<Rightarrow> counters" where
  "exit par k n s =
    (if isIfStatement n then (if \<not> isElseIf par k then decNesting s else s)
     else if isSwitchStatement n \<or> isLoop n \<or> isCatchClause n \<or> isConditionalExpression n
     then decNesting s
     else s)"

text \<open>
  \<^verbatim>\<open>funcPath.traverse({enter, exit})\<close> visits the descendants of the function node, not
  the node itself. A visited node that is a function is skipped: its children are not
  walked and its \<^verbatim>\<open>exit\<close> is not called. Otherwise \<^verbatim>\<open>enter\<close> runs, then the children
  in order, then \<^verbatim>\<open>exit\<close>.
\<close>

fun visit :: "string option \<Rightarrow> node \<Rightarrow> key \<Rightarrow> node \<Rightarrow> counters \<Rightarrow> counters"
  and visit_kids :: "string option \<Rightarrow> node \<Rightarrow> (key \<times> node) list \<Rightarrow> counters \<Rightarrow> counters"
where
  "visit functionName par k (Node t ps p cs) s =
     (if isFunction (Node t ps p cs) then s
      else exit par k (Node t ps p cs)
             (visit_kids functionName (Node t ps p cs) cs
                (enter functionName par k (Node t ps p cs) s)))"
| "visit_kids functionName par [] s = s"
| "visit_kids functionName par (kc # rest) s =
     visit_kids functionName par rest (visit functionName par (fst kc) (snd kc) s)"

definition calculateCognitiveComplexity :: "node \<Rightarrow> int \<Rightarrow> string option \<Rightarrow> int" where
  "calculateCognitiveComplexity funcPath baseNesting functionName =
     complexity (visit_kids functionName funcPath (kids funcPath)
                   \<lparr>complexity = 0, nesting = baseNesting\<rparr>)"

section \<open>The function collector: \<^verbatim>\<open>calculateMetrics\<close>\<close>

text \<open>
  Source text is a list of code units. \<^verbatim>\<open>split('\n')\<close> always returns at least one
  piece, and \<^verbatim>\<open>l.trim()\<close> is the empty (falsy) string exactly when every code unit of
  the line is white space or a line terminator: tab, line feed, vertical tab, form feed,
  carriage return, space and no-break space among the code units below 256.
\<close>

fun split_on :: "char \<Rightarrow> string \<Rightarrow> string list" where
  "split_on c [] = [[]]"
| "split_on c (x # xs) =
     (if x = c then [] # split_on c xs
      else (case split_on c xs of [] \<Rightarrow> [[x]] | p # ps \<Rightarrow> (x # p) # ps))"

definition trim_chars :: "char list" where
  "trim_chars = [CHR 0x09, CHR 0x0A, CHR 0x0B, CHR 0x0C, CHR 0x0D, CHR 0x20, CHR 0xA0]"

definition blank_line :: "string \<Rightarrow> bool" where
  "blank_line l = list_all (\<lambda>c. c \<in> set trim_chars) l"

definition count_lines :: "string \<Rightarrow> nat" where
  "count_lines code = length (split_on CHR 0x0A code)"

definition count_nonblank :: "string \<Rightarrow> nat" where
  "count_nonblank code = length (filter (\<lambda>l. \<not> blank_line l) (split_on CHR 0x0A code))"

text \<open>\<^verbatim>\<open>code.slice(start, end)\<close> for non-negative positions.\<close>

definition slice :: "string \<Rightarrow> nat \<Rightarrow> nat \<Rightarrow> string" where
  "slice code start end = take (end - start) (drop start code)"

record function_record =
  name :: "string option"
  NLOC :: nat
  CC :: int
  lineStart :: "nat option"
  lineEnd :: "nat option"

record metrics =
  LOC :: nat
  NLOC :: nat
  NOF :: nat
  "functions" :: "function_record list"

definition isVariableDeclarator :: "node \<Rightarrow> bool" where
  "isVariableDeclarator n = (ntype n = ''VariableDeclarator'')"

definition isObjectProperty :: "node \<Rightarrow> bool" where
  "isObjectProperty n = (ntype n = ''ObjectProperty'')"

definition isClassMethod :: "node \<Rightarrow> bool" where
  "isClassMethod n = (ntype n = ''ClassMethod'')"

definition isObjectMethod :: "node \<Rightarrow> bool" where
  "isObjectMethod n = (ntype n = ''ObjectMethod'')"

text \<open>
  A slot of the parent that holds an identifier: \<^verbatim>\<open>par.node.id.type === 'Identifier'\<close>
  and its \<^verbatim>\<open>name\<close>. The parser gives every declarator an \<^verbatim>\<open>id\<close> and every property a
  \<^verbatim>\<open>key\<close>; a tree without the slot has no identifier there.
\<close>

definition identifier_in :: "node \<Rightarrow> string \<Rightarrow> bool" where
  "identifier_in n f = (case field n f of None \<Rightarrow> False | Some i \<Rightarrow> ntype i = ''Identifier'')"

definition name_in :: "node \<Rightarrow> string \<Rightarrow> string option" where
  "name_in n f = (case field n f of None \<Rightarrow> None | Some i \<Rightarrow> sprop i ''name'')"

text \<open>
  Name resolution. \<^verbatim>\<open>fnNode.id?.name ?? 'anonymous'\<close> first; the surrounding syntax is
  looked at when that value is the string \<^verbatim>\<open>'anonymous'\<close>. The parent is absent only at
  the root of the tree.
\<close>

definition resolve_name :: "node option \<Rightarrow> node \<Rightarrow> string option" where
  "resolve_name par fnNode =
    (let functionName = (case name_in fnNode ''id'' of None \<Rightarrow> Some ''anonymous'' | Some x \<Rightarrow> Some x)
     in if functionName = Some ''anonymous'' then
          (if (case par of None \<Rightarrow> False
               | Some q \<Rightarrow> isVariableDeclarator q \<and> identifier_in q ''id'')
           then name_in (the par) ''id''
           else if (case par of None \<Rightarrow> False
                    | Some q \<Rightarrow> isObjectProperty q \<and> identifier_in q ''key'')
           then name_in (the par) ''key''
           else if isClassMethod fnNode \<or> isObjectMethod fnNode then
             (if identifier_in fnNode ''key'' then name_in fnNode ''key'' else functionName)
           else functionName)
        else functionName)"

text \<open>The ancestors that count towards the base nesting of a function.\<close>

definition nesting_ancestor :: "node \<Rightarrow> bool" where
  "nesting_ancestor cur =
     (isFunction cur \<or> isIfStatement cur \<or>
      isForStatement cur \<or> isForInStatement cur \<or> isForOfStatement cur \<or>
      isWhileStatement cur \<or> isDoWhileStatement cur \<or>
      isSwitchStatement cur \<or> isCatchClause cur)"

definition base_nesting :: "node list \<Rightarrow> int" where
  "base_nesting ancestors = int (length (filter nesting_ancestor ancestors))"

text \<open>The record pushed for one function node; \<open>ancestors\<close> are its strict ancestors,
  the parent first.\<close>

definition function_entry :: "string \<Rightarrow> node list \<Rightarrow> node \<Rightarrow> function_record" where
  "function_entry code ancestors fnNode =
    (let functionName = resolve_name (case ancestors of [] \<Rightarrow> None | q # _ \<Rightarrow> Some q) fnNode;
         start = (case pstart (npos fnNode) of None \<Rightarrow> 0 | Some i \<Rightarrow> i);
         end = (case pend (npos fnNode) of None \<Rightarrow> length code | Some i \<Rightarrow> i);
         functionCode = slice code start end
     in \<lparr>name = functionName,
         NLOC = count_nonblank functionCode,
         CC = calculateCognitiveComplexity fnNode (base_nesting ancestors) functionName,
         lineStart = line_start (npos fnNode),
         lineEnd = line_end (npos fnNode)\<rparr>)"

text \<open>
  \<^verbatim>\<open>traverse(ast, {enter})\<close>: every node is entered before its children, nested functions
  included, and each function node pushes its record.
\<close>

fun collect :: "string \<Rightarrow> node list \<Rightarrow> node \<Rightarrow> function_record list"
  and collect_kids :: "string \<Rightarrow> node list \<Rightarrow> (key \<times> node) list \<Rightarrow> function_record list"
where
  "collect code ancestors (Node t ps p cs) =
     (if isFunction (Node t ps p cs) then [function_entry code ancestors (Node t ps p cs)] else []) @
     collect_kids code (Node t ps p cs # ancestors) cs"
| "collect_kids code ancestors [] = []"
| "collect_kids code ancestors (kc # rest) =
     collect code ancestors (snd kc) @ collect_kids code ancestors rest"

text \<open>
  The parser is an external collaborator: it fails with a message, which
  \<^verbatim>\<open>calculateMetrics\<close> rethrows, or returns the tree. The traversal starts below the
  file node, so the topmost node entered, the one without a parent path, is the program
  node: that is the tree \<open>parse\<close> returns here.
\<close>

type_synonym parser = "string \<Rightarrow> string + node"

definition calculateMetrics :: "parser \<Rightarrow> string \<Rightarrow> string + metrics" where
  "calculateMetrics parse code =
    (case parse code of
       Inl msg \<Rightarrow> Inl msg
     | Inr ast \<Rightarrow>
         (let fs = collect code [] ast
          in Inr \<lparr>LOC = count_lines code, NLOC = count_nonblank code,
                  NOF = length fs, functions = fs\<rparr>))"

section \<open>Archive root detection: \<^verbatim>\<open>topLevelName\<close> and \<^verbatim>\<open>detectZipRootFolder\<close>\<close>

record zip_entry =
  entryName :: string
  isDirectory :: bool

text \<open>\<^verbatim>\<open>entryName.replace(/^\.\/+/, '')\<close>: one leading dot followed by one or more
  slashes is removed.\<close>

definition strip_dot_slashes :: "string \<Rightarrow> string" where
  "strip_dot_slashes s =
     (case s of
        c # d # rest \<Rightarrow>
          (if c = CHR ''.'' \<and> d = CHR ''/'' then dropWhile (\<lambda>x. x = CHR ''/'') rest else s)
      | _ \<Rightarrow> s)"

definition topLevelName :: "string \<Rightarrow> string" where
  "topLevelName nm =
     (let clean = strip_dot_slashes nm; parts = split_on CHR ''/'' clean
      in case parts of [] \<Rightarrow> [] | p # _ \<Rightarrow> p)"

text \<open>
  The loop body. \<open>counts\<close> is the \<^verbatim>\<open>Map\<close>, kept as an association list in insertion
  order; an entry skipped by a \<^verbatim>\<open>continue\<close> leaves the state as it is.
\<close>

definition detect_step :: "(string \<times> nat) list \<times> bool \<Rightarrow> zip_entry \<Rightarrow> (string \<times> nat) list \<times> bool" where
  "detect_step st e =
    (let counts = fst st; hasTopLevelFiles = snd st
     in if entryName e = [] \<or> isDirectory e then st
        else (let top = topLevelName (entryName e)
              in if top = [] \<or> top = ''__MACOSX'' then st
                 else (AList.update top ((case map_of counts top of None \<Rightarrow> 0 | Some c \<Rightarrow> c) + 1) counts,
                       (if CHR ''/'' \<notin> set (entryName e) then True else hasTopLevelFiles))))"

definition detectZipRootFolder :: "zip_entry list \<Rightarrow> string option" where
  "detectZipRootFolder entries =
    (let st = foldl detect_step ([], False) entries; counts = fst st; hasTopLevelFiles = snd st
     in if hasTopLevelFiles then None
        else if length counts = 1 then (case counts of [] \<Rightarrow> None | kv # _ \<Rightarrow> Some (fst kv))
        else None)"

section \<open>Per-file results and the directory walk\<close>

text \<open>A result object has a \<^verbatim>\<open>fileName\<close> and either a \<^verbatim>\<open>metrics\<close> or an \<^verbatim>\<open>error\<close> key;
  an absent key is \<open>None\<close>.\<close>

record file_result =
  fileName :: string
  metrics :: "metrics option"
  error :: "string option"

text \<open>\<^verbatim>\<open>analyzeFileAt\<close>, given the path relative to the root and the text read from the
  file: the \<^verbatim>\<open>try\<close> branch on success, the \<^verbatim>\<open>catch\<close> branch on a failure.\<close>

definition analyzeFileAt :: "parser \<Rightarrow> string \<Rightarrow> string \<Rightarrow> file_result" where
  "analyzeFileAt parse rel code =
    (case calculateMetrics parse code of
       Inr m \<Rightarrow> \<lparr>fileName = rel, metrics = Some m, error = None\<rparr>
     | Inl msg \<Rightarrow> \<lparr>fileName = rel, metrics = None, error = Some msg\<rparr>)"

definition isCodeFile :: "string \<Rightarrow> bool" where
  "isCodeFile file = (suffix ''.jsx'' file \<or> suffix ''.js'' file \<or> suffix ''.ts'' file \<or>
     suffix ''.tsx'' file)"

definition ignored_folder :: "string \<Rightarrow> bool" where
  "ignored_folder file = (file = ''node_modules'' \<or> prefix ''.git'' file \<or> file = ''dist'' \<or>
     file = ''build'')"

text \<open>The extracted archive: a directory lists its entries in enumeration order, and a
  file carries the text that \<^verbatim>\<open>readFileSync\<close> returns for it.\<close>

datatype fs_entry = FsFile string string | FsDir string "fs_entry list"

fun join_path :: "string list \<Rightarrow> string" where
  "join_path [] = []"
| "join_path [x] = x"
| "join_path (x # y # ys) = x @ ''/'' @ join_path (y # ys)"

text \<open>
  \<^verbatim>\<open>processDirectory\<close>: \<open>dir\<close> is the path of the directory below the root, and the
  results are pushed onto the list passed along.
\<close>

fun process_entry :: "parser \<Rightarrow> string list \<Rightarrow> fs_entry \<Rightarrow> file_result list \<Rightarrow> file_result list"
  and processDirectory :: "parser \<Rightarrow> string list \<Rightarrow> fs_entry list \<Rightarrow> file_result list \<Rightarrow> file_result list"
where
  "process_entry parse dir (FsDir file sub) results =
     (if ignored_folder file then results
      else processDirectory parse (dir @ [file]) sub results)"
| "process_entry parse dir (FsFile file code) results =
     (if isCodeFile file then results @ [analyzeFileAt parse (join_path (dir @ [file])) code]
      else results)"
| "processDirectory parse dir [] results = results"
| "processDirectory parse dir (e # es) results =
     processDirectory parse dir es (process_entry parse dir e results)"

section \<open>The inline-code report: \<^verbatim>\<open>/analyze-code\<close>\<close>

text \<open>
  The response is JSON text, and a finite number in it is modelled by the value its
  decimal numeral denotes. \<^verbatim>\<open>complexity_sum / function_count\<close> is a division of doubles:
  with a divisor other than zero, the exact quotient rounded to the nearest number with a
  53-bit significand, ties to even (no quotient of two integers below \<open>2 ^ 53\<close> leaves
  the normal range); with the divisor zero, \<^verbatim>\<open>NaN\<close> for \<^verbatim>\<open>0 / 0\<close> and an infinity
  with the sign of the dividend otherwise. On a finite number \<^verbatim>\<open>toFixed(2)\<close> picks the
  integer \<open>n\<close> with \<open>n / 100\<close> nearest to that double, the larger one on a tie,
  working on the magnitude, and \<^verbatim>\<open>parseFloat\<close> and the JSON writer print \<open>n / 100\<close>
  again; \<^verbatim>\<open>NaN\<close> and the infinities pass through \<^verbatim>\<open>toFixed\<close> and \<^verbatim>\<open>parseFloat\<close>
  as they are (and the JSON writer prints them as \<^verbatim>\<open>null\<close>).
\<close>

datatype js_number = Num rat | NaN | PosInfinity | NegInfinity

definition round_half_even :: "rat \<Rightarrow> int" where
  "round_half_even x =
     (let f = \<lfloor>x\<rfloor>; d = x - of_int f
      in if d < 1 / 2 then f else if 1 / 2 < d then f + 1 else if even f then f else f + 1)"

text \<open>The exponent \<open>e\<close> with \<open>2 ^ e \<le> q < 2 ^ (e + 1)\<close>, for positive \<open>q\<close>.\<close>

definition exponent_of :: "rat \<Rightarrow> int" where
  "exponent_of q =
     (let a = fst (quotient_of q); b = snd (quotient_of q); e0 = bitlen a - bitlen b
      in if 2 powi e0 \<le> q then e0 else e0 - 1)"

definition double_of :: "rat \<Rightarrow> rat" where
  "double_of q =
     (if q = 0 then 0
      else (let u = 2 powi (exponent_of \<bar>q\<bar> - 52)
            in sgn q * of_int (round_half_even (\<bar>q\<bar> / u)) * u))"

definition toFixed2 :: "rat \<Rightarrow> rat" where
  "toFixed2 x =
     (if x < 0 then - (of_int \<lfloor>100 * (- x) + 1 / 2\<rfloor> / 100)
      else of_int \<lfloor>100 * x + 1 / 2\<rfloor> / 100)"

text \<open>\<^verbatim>\<open>a / b\<close> for an integer \<open>a\<close> and a count \<open>b\<close>.\<close>

definition js_divide :: "int \<Rightarrow> nat \<Rightarrow> js_number" where
  "js_divide a b =
     (if b = 0 then (if a = 0 then NaN else if 0 < a then PosInfinity else NegInfinity)
      else Num (double_of (of_int a / of_nat b)))"

text \<open>\<^verbatim>\<open>parseFloat(x.toFixed(2))\<close>\<close>

definition parse_fixed2 :: "js_number \<Rightarrow> js_number" where
  "parse_fixed2 x = (case x of Num q \<Rightarrow> Num (toFixed2 q) | _ \<Rightarrow> x)"

record flat_function =
  cyclomatic_complexity :: int
  nloc :: nat
  token_count :: nat
  name :: "string option"
  long_name :: "string option"
  start_line :: "nat option"
  end_line :: nat
  max_nesting_depth :: nat

record report =
  filename :: string
  language :: string
  total_loc :: nat
  total_nloc :: nat
  function_count :: nat
  complexity_avg :: js_number
  complexity_max :: int
  "functions" :: "flat_function list"

text \<open>The callback of \<^verbatim>\<open>babelMetrics.functions.map\<close>: the object it returns, and the
  step it makes on the two variables it updates and the array being built.\<close>

definition flat_entry :: "function_record \<Rightarrow> flat_function" where
  "flat_entry f =
     \<lparr>cyclomatic_complexity = CC f,
      nloc = function_record.NLOC f,
      token_count = 0,
      name = function_record.name f,
      long_name = function_record.name f,
      start_line = lineStart f,
      end_line = 0,
      max_nesting_depth = 0\<rparr>"

definition flatten_step :: "int \<times> int \<times> flat_function list \<Rightarrow> function_record \<Rightarrow> int \<times> int \<times> flat_function list" where
  "flatten_step st f =
    (let complexity_sum = fst st; complexity_max = fst (snd st); out = snd (snd st);
         cc = CC f
     in (complexity_sum + cc,
         (if cc > complexity_max then cc else complexity_max),
         out @ [flat_entry f]))"

datatype response = Json report | Status400 string | Status500 string

text \<open>The handler. An absent or empty \<^verbatim>\<open>code\<close> or \<^verbatim>\<open>filename\<close> is refused first.\<close>

definition analyze_code :: "parser \<Rightarrow> string \<Rightarrow> string \<Rightarrow> response" where
  "analyze_code parse code fname =
    (if code = [] \<or> fname = [] then Status400 ''Request must include \"code\" and \"filename\"''
     else (case calculateMetrics parse code of
             Inl msg \<Rightarrow> Status500 (''Failed to analyze code: '' @ msg)
           | Inr babelMetrics \<Rightarrow>
               (let st = foldl flatten_step (0, 0, []) (metrics.functions babelMetrics);
                    complexity_sum = fst st; cmax = fst (snd st); fs = snd (snd st);
                    n = length fs;
                    avg = (if n > 0 then parse_fixed2 (js_divide complexity_sum n)
                           else Num 0)
                in Json \<lparr>filename = fname,
                         language = ''javascript'',
                         total_loc = LOC babelMetrics,
                         total_nloc = metrics.NLOC babelMetrics,
                         function_count = n,
                         complexity_avg = avg,
                         complexity_max = cmax,
                         functions = fs\<rparr>)))"

section \<open>Trees of the shapes the parser produces\<close>

text \<open>
  Builders for the node shapes that occur in the examples below, with the child slots
  in the parser's visiting order. They carry no position information.
\<close>

definition no_pos :: pos where
  "no_pos = \<lparr>pstart = None, pend = None, line_start = None, line_end = None\<rparr>"

fun elems_from :: "string \<Rightarrow> nat \<Rightarrow> node list \<Rightarrow> (key \<times> node) list" where
  "elems_from l i [] = []"
| "elems_from l i (x # xs) = (Elem l i, x) # elems_from l (Suc i) xs"

definition elems :: "string \<Rightarrow> node list \<Rightarrow> (key \<times> node) list" where
  "elems l xs = elems_from l 0 xs"

definition opt_field :: "string \<Rightarrow> node option \<Rightarrow> (key \<times> node) list" where
  "opt_field f x = (case x of None \<Rightarrow> [] | Some n \<Rightarrow> [(Field f, n)])"

definition Identifier :: "string \<Rightarrow> node" where
  "Identifier x = Node ''Identifier'' [(''name'', x)] no_pos []"

definition NumericLiteral :: "string \<Rightarrow> node" where
  "NumericLiteral v = Node ''NumericLiteral'' [(''value'', v)] no_pos []"

definition BlockStatement :: "node list \<Rightarrow> node" where
  "BlockStatement body = Node ''BlockStatement'' [] no_pos (elems ''body'' body)"

definition ExpressionStatement :: "node \<Rightarrow> node" where
  "ExpressionStatement e = Node ''ExpressionStatement'' [] no_pos [(Field ''expression'', e)]"

definition ReturnStatement :: "node option \<Rightarrow> node" where
  "ReturnStatement a = Node ''ReturnStatement'' [] no_pos (opt_field ''argument'' a)"

definition IfStatement :: "node \<Rightarrow> node \<Rightarrow> node option \<Rightarrow> node" where
  "IfStatement test consequent alternate =
     Node ''IfStatement'' [] no_pos
       ([(Field ''test'', test), (Field ''consequent'', consequent)] @
        opt_field ''alternate'' alternate)"

definition LogicalExpression :: "string \<Rightarrow> node \<Rightarrow> node \<Rightarrow> node" where
  "LogicalExpression op l r =
     Node ''LogicalExpression'' [(''operator'', op)] no_pos
       [(Field ''left'', l), (Field ''right'', r)]"

definition BreakStatement :: "node option \<Rightarrow> node" where
  "BreakStatement label = Node ''BreakStatement'' [] no_pos (opt_field ''label'' label)"

definition SwitchCase :: "node option \<Rightarrow> node list \<Rightarrow> node" where
  "SwitchCase test consequent =
     Node ''SwitchCase'' [] no_pos (opt_field ''test'' test @ elems ''consequent'' consequent)"

definition SwitchStatement :: "node \<Rightarrow> node list \<Rightarrow> node" where
  "SwitchStatement discriminant cases =
     Node ''SwitchStatement'' [] no_pos
       ((Field ''discriminant'', discriminant) # elems ''cases'' cases)"

definition CallExpression :: "node \<Rightarrow> node list \<Rightarrow> node" where
  "CallExpression callee args =
     Node ''CallExpression'' [] no_pos ((Field ''callee'', callee) # elems ''arguments'' args)"

definition FunctionDeclaration :: "string \<Rightarrow> node list \<Rightarrow> node \<Rightarrow> node" where
  "FunctionDeclaration nm params body =
     Node ''FunctionDeclaration'' [] no_pos
       ((Field ''id'', Identifier nm) # elems ''params'' params @ [(Field ''body'', body)])"

definition FunctionExpression :: "string option \<Rightarrow> node list \<Rightarrow> node \<Rightarrow> node" where
  "FunctionExpression nm params body =
     Node ''FunctionExpression'' [] no_pos
       (opt_field ''id'' (map_option Identifier nm) @ elems ''params'' params @
        [(Field ''body'', body)])"

definition ArrowFunctionExpression :: "node list \<Rightarrow> node \<Rightarrow> node" where
  "ArrowFunctionExpression params body =
     Node ''ArrowFunctionExpression'' [] no_pos
       (elems ''params'' params @ [(Field ''body'', body)])"

definition ObjectMethod :: "node \<Rightarrow> node list \<Rightarrow> node \<Rightarrow> node" where
  "ObjectMethod k params body =
     Node ''ObjectMethod'' [] no_pos
       ((Field ''key'', k) # elems ''params'' params @ [(Field ''body'', body)])"

definition ObjectProperty :: "node \<Rightarrow> node \<Rightarrow> node" where
  "ObjectProperty k v = Node ''ObjectProperty'' [] no_pos [(Field ''key'', k), (Field ''value'', v)]"

definition ObjectExpression :: "node list \<Rightarrow> node" where
  "ObjectExpression props = Node ''ObjectExpression'' [] no_pos (elems ''properties'' props)"

definition VariableDeclarator :: "node \<Rightarrow> node option \<Rightarrow> node" where
  "VariableDeclarator i init =
     Node ''VariableDeclarator'' [] no_pos ((Field ''id'', i) # opt_field ''init'' init)"

definition VariableDeclaration :: "string \<Rightarrow> node list \<Rightarrow> node" where
  "VariableDeclaration kind ds =
     Node ''VariableDeclaration'' [(''kind'', kind)] no_pos (elems ''declarations'' ds)"

definition Program :: "node list \<Rightarrow> node" where
  "Program body = Node ''Program'' [] no_pos (elems ''body'' body)"

text \<open>The function bodies of the repository's own checks, as trees.\<close>

definition testElse :: node where
  \<comment> \<open>\<^verbatim>\<open>function testElse() { if (x) { } else { } }\<close>\<close>
  "testElse = FunctionDeclaration ''testElse'' []
     (BlockStatement
        [IfStatement (Identifier ''x'') (BlockStatement []) (Some (BlockStatement []))])"

definition testElseIf :: node where
  \<comment> \<open>\<^verbatim>\<open>function testElseIf() { if (x) { } else if (y) { } }\<close>\<close>
  "testElseIf = FunctionDeclaration ''testElseIf'' []
     (BlockStatement
        [IfStatement (Identifier ''x'') (BlockStatement [])
           (Some (IfStatement (Identifier ''y'') (BlockStatement []) None))])"

definition testNested :: node where
  \<comment> \<open>\<^verbatim>\<open>function testNested() { if (x) { if (y) {} } }\<close>\<close>
  "testNested = FunctionDeclaration ''testNested'' []
     (BlockStatement
        [IfStatement (Identifier ''x'')
           (BlockStatement [IfStatement (Identifier ''y'') (BlockStatement []) None])
           None])"

definition textMixed :: node where
  \<comment> \<open>\<^verbatim>\<open>function textMixed() { if (x) { if (y) {} } else { return; } }\<close>\<close>
  "textMixed = FunctionDeclaration ''textMixed'' []
     (BlockStatement
        [IfStatement (Identifier ''x'')
           (BlockStatement [IfStatement (Identifier ''y'') (BlockStatement []) None])
           (Some (BlockStatement [ReturnStatement None]))])"

definition testBool :: node where
  \<comment> \<open>\<^verbatim>\<open>function testBool() { if (a && b && c) {} }\<close>\<close>
  "testBool = FunctionDeclaration ''testBool'' []
     (BlockStatement
        [IfStatement
           (LogicalExpression ''&&''
              (LogicalExpression ''&&'' (Identifier ''a'') (Identifier ''b''))
              (Identifier ''c''))
           (BlockStatement []) None])"

definition testSwitch :: node where
  \<comment> \<open>\<^verbatim>\<open>function testSwitch() { switch (x) { case 1: break; default: break; } }\<close>\<close>
  "testSwitch = FunctionDeclaration ''testSwitch'' []
     (BlockStatement
        [SwitchStatement (Identifier ''x'')
           [SwitchCase (Some (NumericLiteral ''1'')) [BreakStatement None],
            SwitchCase None [BreakStatement None]]])"

text \<open>Trees and predicates that the statements below speak about.\<close>

fun else_if_chain :: "nat \<Rightarrow> node" where
  \<comment> \<open>\<^verbatim>\<open>if (c) {} else if (c) {} ... else if (c) {}\<close> with \<open>m\<close> links after the first\<close>
  "else_if_chain 0 = IfStatement (Identifier ''c'') (BlockStatement []) None"
| "else_if_chain (Suc m) =
     IfStatement (Identifier ''c'') (BlockStatement []) (Some (else_if_chain m))"

definition else_if_function :: "nat \<Rightarrow> node" where
  "else_if_function m = FunctionDeclaration ''f'' [] (BlockStatement [else_if_chain m])"

fun logical_run :: "string \<Rightarrow> node \<Rightarrow> string list \<Rightarrow> node" where
  \<comment> \<open>\<^verbatim>\<open>a op b op c ...\<close>, nested to the left as the parser nests it\<close>
  "logical_run op acc [] = acc"
| "logical_run op acc (b # bs) = logical_run op (LogicalExpression op acc (Identifier b)) bs"

definition same_operator_parent :: "string \<Rightarrow> node \<Rightarrow> bool" where
  "same_operator_parent op par = (isLogicalExpression par \<and> sprop par ''operator'' = Some op)"

definition control_flow_types :: "string list" where
  "control_flow_types = [''IfStatement'', ''ConditionalExpression'', ''SwitchStatement'',
     ''SwitchCase'', ''ForStatement'', ''ForInStatement'', ''ForOfStatement'',
     ''WhileStatement'', ''DoWhileStatement'', ''CatchClause'', ''LogicalExpression'',
     ''BreakStatement'', ''ContinueStatement'']"

definition is_control_flow :: "node \<Rightarrow> bool" where
  "is_control_flow n = (ntype n \<in> set control_flow_types)"

definition is_self_call :: "string option \<Rightarrow> node \<Rightarrow> bool" where
  "is_self_call fn n = (isCallExpression n \<and> truthy_name fn \<and> calls_by_name fn n)"

fun nodes_of :: "node \<Rightarrow> node list"
  and nodes_of_kids :: "(key \<times> node) list \<Rightarrow> node list"
where
  "nodes_of (Node t ps p cs) = Node t ps p cs # nodes_of_kids cs"
| "nodes_of_kids [] = []"
| "nodes_of_kids (kc # rest) = nodes_of (snd kc) @ nodes_of_kids rest"

text \<open>The nodes below a function node: its subtree without the node itself.\<close>

definition control_flow_free :: "node \<Rightarrow> bool" where
  "control_flow_free f = list_all (\<lambda>n. \<not> is_control_flow n) (nodes_of_kids (kids f))"

definition self_call_free :: "string option \<Rightarrow> node \<Rightarrow> bool" where
  "self_call_free fn f = list_all (\<lambda>n. \<not> is_self_call fn n) (nodes_of_kids (kids f))"

definition selfCall :: node where
  \<comment> \<open>\<^verbatim>\<open>function f() { f(); }\<close>\<close>
  "selfCall = FunctionDeclaration ''f'' []
     (BlockStatement [ExpressionStatement (CallExpression (Identifier ''f'') [])])"

definition callsAnonymousFunction :: node where
  \<comment> \<open>\<^verbatim>\<open>function () { anonymous(); }\<close>\<close>
  "callsAnonymousFunction = FunctionExpression None []
     (BlockStatement [ExpressionStatement (CallExpression (Identifier ''anonymous'') [])])"

definition callsAnonymous :: node where
  \<comment> \<open>\<^verbatim>\<open>(function () { anonymous(); })\<close>\<close>
  "callsAnonymous = Program [ExpressionStatement callsAnonymousFunction]"

definition plainCall :: node where
  \<comment> \<open>\<^verbatim>\<open>function g() { return h(x); }\<close>\<close>
  "plainCall = FunctionDeclaration ''g'' []
     (BlockStatement
        [ReturnStatement (Some (CallExpression (Identifier ''h'') [Identifier ''x'']))])"

text \<open>The entries that the detection loop counts: the others are skipped by a
  \<^verbatim>\<open>continue\<close>.\<close>

definition counted :: "zip_entry \<Rightarrow> bool" where
  "counted e = (entryName e \<noteq> [] \<and> \<not> isDirectory e \<and> topLevelName (entryName e) \<noteq> [] \<and>
     topLevelName (entryName e) \<noteq> ''__MACOSX'')"

text \<open>A path with a slash that loses every slash when the leading \<^verbatim>\<open>./\<close> is stripped: a
  file at the top level, written \<^verbatim>\<open>./a.js\<close>.\<close>

definition dot_slash_file :: "string \<Rightarrow> bool" where
  "dot_slash_file nm = (CHR ''/'' \<in> set nm \<and> CHR ''/'' \<notin> set (strip_dot_slashes nm))"

definition example_root :: "zip_entry list" where
  "example_root = [\<lparr>entryName = ''root/a.js'', isDirectory = False\<rparr>,
     \<lparr>entryName = ''root/sub/b.js'', isDirectory = False\<rparr>]"

definition example_top_file :: "zip_entry list" where
  "example_top_file = [\<lparr>entryName = ''a.js'', isDirectory = False\<rparr>,
     \<lparr>entryName = ''root/b.js'', isDirectory = False\<rparr>]"

definition example_two_roots :: "zip_entry list" where
  "example_two_roots = [\<lparr>entryName = ''a/x.js'', isDirectory = False\<rparr>,
     \<lparr>entryName = ''b/y.js'', isDirectory = False\<rparr>]"

definition example_macosx :: "zip_entry list" where
  "example_macosx = [\<lparr>entryName = ''__MACOSX/x.js'', isDirectory = False\<rparr>,
     \<lparr>entryName = ''root/y.js'', isDirectory = False\<rparr>]"

definition example_project :: "zip_entry list" where
  "example_project = [\<lparr>entryName = ''proj/'', isDirectory = True\<rparr>,
     \<lparr>entryName = ''proj/src/a.js'', isDirectory = False\<rparr>,
     \<lparr>entryName = ''__MACOSX/._a.js'', isDirectory = False\<rparr>,
     \<lparr>entryName = ''./proj/b.ts'', isDirectory = False\<rparr>]"

definition example_dot_slash :: "zip_entry list" where
  "example_dot_slash = [\<lparr>entryName = ''./a.js'', isDirectory = False\<rparr>]"

text \<open>Programs for name resolution: \<^verbatim>\<open>const foo = () => {}\<close>, \<^verbatim>\<open>({ foo() {} })\<close>,
  \<^verbatim>\<open>(function () {})\<close> and \<^verbatim>\<open>const foo = function anonymous() {}\<close>.\<close>

definition constFoo :: node where
  "constFoo = Program [VariableDeclaration ''const''
     [VariableDeclarator (Identifier ''foo'')
        (Some (ArrowFunctionExpression [] (BlockStatement [])))]]"

definition objectFoo :: node where
  "objectFoo = Program [ExpressionStatement
     (ObjectExpression [ObjectMethod (Identifier ''foo'') [] (BlockStatement [])])]"

definition unassigned :: node where
  "unassigned = Program [ExpressionStatement (FunctionExpression None [] (BlockStatement []))]"

definition anonymousNamed :: node where
  "anonymousNamed = FunctionExpression (Some ''anonymous'') [] (BlockStatement [])"

definition namedAnonymous :: node where
  "namedAnonymous = Program [VariableDeclaration ''const''
     [VariableDeclarator (Identifier ''foo'') (Some anonymousNamed)]]"

text \<open>The code files below a directory, with their paths relative to the root, in the
  order of the walk.\<close>

fun code_files_entry :: "string list \<Rightarrow> fs_entry \<Rightarrow> (string \<times> string) list"
  and code_files :: "string list \<Rightarrow> fs_entry list \<Rightarrow> (string \<times> string) list"
where
  "code_files_entry dir (FsDir file sub) =
     (if ignored_folder file then [] else code_files (dir @ [file]) sub)"
| "code_files_entry dir (FsFile file code) =
     (if isCodeFile file then [(join_path (dir @ [file]), code)] else [])"
| "code_files dir [] = []"
| "code_files dir (e # es) = code_files_entry dir e @ code_files dir es"

text \<open>A parser that fails on one text, and a small extracted archive:
  \<^verbatim>\<open>bad.js\<close>, \<^verbatim>\<open>notes.txt\<close>, \<^verbatim>\<open>node_modules/dep.js\<close> and \<^verbatim>\<open>src/ok.js\<close>.\<close>

definition smallParser :: parser where
  "smallParser code = (if code = ''bad'' then Inl ''Unexpected token'' else Inr (Program [testNested]))"

definition smallArchive :: "fs_entry list" where
  "smallArchive = [FsFile ''bad.js'' ''bad'', FsFile ''notes.txt'' ''bad'',
     FsDir ''node_modules'' [FsFile ''dep.js'' ''bad''],
     FsDir ''src'' [FsFile ''ok.js'' ''good'']]"

definition threeFunctions :: node where
  "threeFunctions = Program [testNested, testElseIf, testBool]"

definition noFunctions :: node where
  \<comment> \<open>\<^verbatim>\<open>x;\<close>\<close>
  "noFunctions = Program [ExpressionStatement (Identifier ''x'')]"

section \<open>Properties of the scorer\<close>

lemmas type_tests = isFunction_def function_types_def isIfStatement_def isSwitchStatement_def
  isSwitchCase_def isForStatement_def isForInStatement_def isForOfStatement_def
  isWhileStatement_def isDoWhileStatement_def isCatchClause_def isLogicalExpression_def
  isConditionalExpression_def isCallExpression_def isBreakStatement_def
  isContinueStatement_def isLoop_def

lemmas counter_ops = addStructural_def addFundamental_def incNesting_def decNesting_def

lemma counters_update_order [simp]:
  "complexity_update f (nesting_update g s) = nesting_update g (complexity_update f s)"
  by (cases s) simp

subsection \<open>What the handlers do at each kind of node\<close>

lemma enter_else_if:
  assumes "isIfStatement par" "isIfStatement n"
  shows "enter fn par (Field ''alternate'') n s =
     s\<lparr>complexity := complexity s + (1 + (nesting s - 1)) + (if has_plain_else n then 1 else 0)\<rparr>"
  using assms by (simp add: enter_def type_tests isElseIf_def counter_ops)

lemma exit_else_if:
  assumes "isIfStatement par" "isIfStatement n"
  shows "exit par (Field ''alternate'') n s = s"
  using assms by (simp add: exit_def isElseIf_def)

lemma enter_plain_if:
  assumes "isIfStatement n" "\<not> isElseIf par k"
  shows "enter fn par k n s =
     (let s' = incNesting (addStructural s) in if has_plain_else n then addFundamental s' else s')"
  using assms by (simp add: enter_def type_tests)

lemma exit_plain_if:
  assumes "isIfStatement n" "\<not> isElseIf par k"
  shows "exit par k n s = decNesting s"
  using assms by (simp add: exit_def)

lemma enter_switch: "isSwitchStatement n \<Longrightarrow> enter fn par k n s = incNesting s"
  by (simp add: enter_def type_tests)

lemma exit_switch: "isSwitchStatement n \<Longrightarrow> exit par k n s = decNesting s"
  by (simp add: exit_def type_tests)

lemma enter_case: "isSwitchCase n \<Longrightarrow> enter fn par k n s = addFundamental s"
  by (simp add: enter_def type_tests)

lemma exit_case: "isSwitchCase n \<Longrightarrow> exit par k n s = s"
  by (simp add: exit_def type_tests)

lemma enter_logical:
  assumes "isLogicalExpression n"
  shows "enter fn par k n s =
     (if counted_operator (sprop n ''operator'') \<and>
         \<not> (isLogicalExpression par \<and> sprop par ''operator'' = sprop n ''operator'')
      then addFundamental s else s)"
  using assms by (auto simp add: enter_def type_tests)

lemma exit_logical: "isLogicalExpression n \<Longrightarrow> exit par k n s = s"
  by (simp add: exit_def type_tests)

subsection \<open>Walking the trees of the builders\<close>

lemma visit_Identifier: "visit fn par k (Identifier x) s = s"
  by (simp add: Identifier_def enter_def exit_def type_tests)

lemma visit_empty_block: "visit fn par k (BlockStatement []) s = s"
  by (simp add: BlockStatement_def elems_def enter_def exit_def type_tests)

lemma visit_BlockStatement:
  "visit fn par k (BlockStatement ss) s =
     visit_kids fn (BlockStatement ss) (elems ''body'' ss) s"
  by (simp add: BlockStatement_def enter_def exit_def type_tests)

lemma ntype_builders [simp]:
  "ntype (IfStatement t c a) = ''IfStatement''"
  "ntype (BlockStatement ss) = ''BlockStatement''"
  "ntype (Identifier x) = ''Identifier''"
  "ntype (LogicalExpression op l r) = ''LogicalExpression''"
  by (simp_all add: IfStatement_def BlockStatement_def Identifier_def LogicalExpression_def)

lemma isElseIf_builders [simp]:
  "isElseIf (IfStatement t c a) k = (k = Field ''alternate'')"
  "isElseIf (BlockStatement ss) k = False"
  "isElseIf (FunctionDeclaration f ps b) k = False"
  by (simp_all add: isElseIf_def isIfStatement_def IfStatement_def BlockStatement_def
      FunctionDeclaration_def)

lemma visit_IfStatement:
  "visit fn par k (IfStatement t c a) s =
    (let n = IfStatement t c a;
         e = (case a of None \<Rightarrow> 0 | Some x \<Rightarrow> if ntype x = ''IfStatement'' then 0 else 1);
         s1 = (if isElseIf par k
               then s\<lparr>complexity := complexity s + (1 + (nesting s - 1)) + e\<rparr>
               else incNesting (s\<lparr>complexity := complexity s + (1 + nesting s) + e\<rparr>));
         s2 = visit fn n (Field ''test'') t s1;
         s3 = visit fn n (Field ''consequent'') c s2;
         s4 = (case a of None \<Rightarrow> s3 | Some x \<Rightarrow> visit fn n (Field ''alternate'') x s3)
     in if isElseIf par k then s4 else decNesting s4)"
proof -
  let ?n = "IfStatement t c a"
  have t: "isIfStatement ?n" and f: "\<not> isFunction ?n"
    and c: "kids ?n = [(Field ''test'', t), (Field ''consequent'', c)] @ opt_field ''alternate'' a"
    by (simp_all add: IfStatement_def type_tests)
  have e: "has_plain_else ?n = (case a of None \<Rightarrow> False | Some x \<Rightarrow> ntype x \<noteq> ''IfStatement'')"
    by (simp add: has_plain_else_def field_def IfStatement_def opt_field_def split: option.splits)
  obtain t' ps p cs where n: "?n = Node t' ps p cs"
    by (cases ?n)
  have v: "visit fn par k ?n s =
      exit par k ?n (visit_kids fn ?n (kids ?n) (enter fn par k ?n s))"
    using f unfolding n by simp
  have en: "enter fn par k ?n s =
     (let s3 = (if isElseIf par k
                    then s\<lparr>complexity := complexity s + (1 + (nesting s - 1))\<rparr>
                    else incNesting (addStructural s))
          in if has_plain_else ?n then addFundamental s3 else s3)"
    using t by (simp add: enter_def type_tests)
  have ex: "exit par k ?n s' = (if isElseIf par k then s' else decNesting s')" for s'
    using t by (simp add: exit_def)
  show ?thesis
    unfolding v en ex c e
    by (cases a) (simp_all add: opt_field_def Let_def counter_ops)
qed

lemma visit_ReturnStatement_None: "visit fn par k (ReturnStatement None) s = s"
  by (simp add: ReturnStatement_def opt_field_def enter_def exit_def type_tests)

lemma score_FunctionDeclaration:
  "calculateCognitiveComplexity (FunctionDeclaration f [] b) base fn =
     complexity (visit fn (FunctionDeclaration f [] b) (Field ''body'') b
        \<lparr>complexity = 0, nesting = base\<rparr>)"
  by (simp add: calculateCognitiveComplexity_def FunctionDeclaration_def elems_def
      visit_Identifier)

lemma visit_LogicalExpression:
  "visit fn par k (LogicalExpression op l r) s =
     visit fn (LogicalExpression op l r) (Field ''right'') r
       (visit fn (LogicalExpression op l r) (Field ''left'') l
          (if counted_operator (Some op) \<and> \<not> same_operator_parent op par
           then addFundamental s else s))"
proof -
  let ?n = "LogicalExpression op l r"
  have t: "isLogicalExpression ?n"
    and o: "sprop ?n ''operator'' = Some op"
    and f: "\<not> isFunction ?n"
    and c: "kids ?n = [(Field ''left'', l), (Field ''right'', r)]"
    by (simp_all add: LogicalExpression_def type_tests sprop_def)
  obtain t' ps p cs where n: "?n = Node t' ps p cs"
    by (cases ?n)
  have "visit fn par k ?n s =
      exit par k ?n (visit_kids fn ?n (kids ?n) (enter fn par k ?n s))"
    using f unfolding n by simp
  then show ?thesis
    by (simp add: c exit_logical [OF t] enter_logical [OF t] o same_operator_parent_def)
qed

lemma same_operator_parent_LogicalExpression [simp]:
  "same_operator_parent op (LogicalExpression op' l r) = (op = op')"
  by (auto simp add: same_operator_parent_def LogicalExpression_def type_tests sprop_def)

subsection \<open>Chains of else-if\<close>

lemma ntype_chain: "ntype (else_if_chain m) = ''IfStatement''"
  by (cases m) (simp_all add: IfStatement_def)

lemma chain_link:
  "visit fn (IfStatement t c a) (Field ''alternate'') (else_if_chain m) s =
     s\<lparr>complexity := complexity s + (int m + 1) * nesting s\<rparr>"
proof (induction m arbitrary: t c a s)
  case 0
  show ?case
    by (simp add: visit_IfStatement visit_Identifier visit_empty_block)
next
  case (Suc m)
  show ?case
    by (simp add: visit_IfStatement visit_Identifier visit_empty_block Suc.IH ntype_chain
        algebra_simps)
qed

lemma chain_score:
  "calculateCognitiveComplexity (else_if_function m) b fn = (int m + 1) * (1 + b)"
proof (cases m)
  case 0
  then show ?thesis
    by (simp add: else_if_function_def score_FunctionDeclaration visit_BlockStatement elems_def
        visit_IfStatement visit_Identifier visit_empty_block counter_ops)
next
  case (Suc j)
  then show ?thesis
    by (simp add: else_if_function_def score_FunctionDeclaration visit_BlockStatement elems_def
        visit_IfStatement visit_Identifier visit_empty_block counter_ops chain_link ntype_chain
        algebra_simps)
qed

text \<open>
  C1. The function body \<^verbatim>\<open>if (x) {} else if (y) {}\<close> scores exactly 2 at base nesting 0.
  An if statement that is the alternate of an if statement is charged
  \<open>1 + (nesting - 1)\<close> (and 1 more when it has an else branch that is not an if), leaves
  the nesting as it is on entry, and its exit leaves the counters as they are. Hence a
  chain of \<open>m\<close> else-ifs after a first if scores \<open>(m + 1) * (1 + b)\<close> at base nesting
  \<open>b\<close>: linearly in the length of the chain.
\<close>

theorem else_if_scores_flat:
  "calculateCognitiveComplexity testElseIf 0 (Some ''testElseIf'') = 2 \<and>
   (\<forall>fn par n s. isIfStatement par \<and> isIfStatement n \<longrightarrow>
      enter fn par (Field ''alternate'') n s =
        s\<lparr>complexity := complexity s + (1 + (nesting s - 1)) +
             (if has_plain_else n then 1 else 0)\<rparr> \<and>
      exit par (Field ''alternate'') n s = s) \<and>
   (\<forall>m b fn. calculateCognitiveComplexity (else_if_function m) b fn = (int m + 1) * (1 + b))"
proof -
  have "calculateCognitiveComplexity testElseIf 0 (Some ''testElseIf'') = 2"
    by (simp add: testElseIf_def score_FunctionDeclaration visit_BlockStatement elems_def
        visit_IfStatement visit_Identifier visit_empty_block counter_ops)
  then show ?thesis
    using enter_else_if exit_else_if chain_score by simp
qed

theorem else_if_scores_flat_witness:
  "isIfStatement (IfStatement (Identifier ''x'') (BlockStatement []) None) \<and>
   enter None (IfStatement (Identifier ''x'') (BlockStatement []) None) (Field ''alternate'')
     (IfStatement (Identifier ''y'') (BlockStatement []) None)
     \<lparr>complexity = 1, nesting = 1\<rparr> = \<lparr>complexity = 2, nesting = 1\<rparr> \<and>
   exit (IfStatement (Identifier ''x'') (BlockStatement []) None) (Field ''alternate'')
     (IfStatement (Identifier ''y'') (BlockStatement []) None)
     \<lparr>complexity = 2, nesting = 1\<rparr> = \<lparr>complexity = 2, nesting = 1\<rparr> \<and>
   calculateCognitiveComplexity (else_if_function 4) 0 None = 5"
proof -
  let ?p = "IfStatement (Identifier ''x'') (BlockStatement []) None"
  let ?n = "IfStatement (Identifier ''y'') (BlockStatement []) None"
  have i: "isIfStatement ?p" "isIfStatement ?n"
    by (simp_all add: isIfStatement_def)
  have e: "\<not> has_plain_else ?n"
    by (simp add: has_plain_else_def field_def IfStatement_def opt_field_def)
  from else_if_scores_flat
  have r: "\<forall>fn par n s. isIfStatement par \<and> isIfStatement n \<longrightarrow>
      enter fn par (Field ''alternate'') n s =
        s\<lparr>complexity := complexity s + (1 + (nesting s - 1)) +
             (if has_plain_else n then 1 else 0)\<rparr> \<and>
      exit par (Field ''alternate'') n s = s"
    and c: "\<forall>m b fn. calculateCognitiveComplexity (else_if_function m) b fn = (int m + 1) * (1 + b)"
    by blast+
  show ?thesis
    using i e r [rule_format, of ?p ?n] c [rule_format, of 4 0 None] by simp
qed

subsection \<open>Nested if statements\<close>

lemma nested_any_base: "calculateCognitiveComplexity testNested b fn = 3 + 2 * b"
  by (simp add: testNested_def score_FunctionDeclaration visit_BlockStatement elems_def
      visit_IfStatement visit_Identifier counter_ops)

lemma mixed_any_base: "calculateCognitiveComplexity textMixed b fn = 4 + 2 * b"
  by (simp add: textMixed_def score_FunctionDeclaration visit_BlockStatement elems_def
      visit_IfStatement visit_Identifier counter_ops visit_ReturnStatement_None)

text \<open>
  C2. The function body \<^verbatim>\<open>if (x) { if (y) {} }\<close> scores exactly 3 at base nesting 0
  (and \<open>3 + 2 * b\<close> at base nesting \<open>b\<close>): an if statement that is not an else-if is
  charged \<open>1 + nesting\<close> and raises the nesting by 1 before its children are entered,
  so the inner if is charged \<open>1 + 1\<close>; its exit lowers the nesting again. With a
  surrounding else that is not an if, \<^verbatim>\<open>if (x) { if (y) {} } else { return; }\<close>, the
  score is 1 more: 4.
\<close>

theorem nested_if_scores_three:
  "calculateCognitiveComplexity testNested 0 (Some ''testNested'') = 3 \<and>
   calculateCognitiveComplexity textMixed 0 (Some ''textMixed'') = 4 \<and>
   (\<forall>b fn. calculateCognitiveComplexity testNested b fn = 3 + 2 * b) \<and>
   (\<forall>fn par k n s. isIfStatement n \<and> \<not> isElseIf par k \<longrightarrow>
      complexity (enter fn par k n s) =
        complexity s + (1 + nesting s) + (if has_plain_else n then 1 else 0) \<and>
      nesting (enter fn par k n s) = nesting s + 1 \<and>
      exit par k n s = s\<lparr>nesting := nesting s - 1\<rparr>)"
proof -
  have "complexity (enter fn par k n s) =
        complexity s + (1 + nesting s) + (if has_plain_else n then 1 else 0) \<and>
      nesting (enter fn par k n s) = nesting s + 1 \<and>
      exit par k n s = s\<lparr>nesting := nesting s - 1\<rparr>"
    if "isIfStatement n" "\<not> isElseIf par k" for fn par k n s
    using that by (simp add: enter_plain_if exit_plain_if counter_ops Let_def)
  then show ?thesis
    using nested_any_base [of 0] mixed_any_base [of 0] nested_any_base by simp
qed

theorem nested_if_scores_three_witness:
  "isIfStatement (IfStatement (Identifier ''y'') (BlockStatement []) None) \<and>
   \<not> isElseIf (BlockStatement [IfStatement (Identifier ''y'') (BlockStatement []) None])
       (Elem ''body'' 0) \<and>
   complexity (enter None
       (BlockStatement [IfStatement (Identifier ''y'') (BlockStatement []) None])
       (Elem ''body'' 0) (IfStatement (Identifier ''y'') (BlockStatement []) None)
       \<lparr>complexity = 1, nesting = 1\<rparr>) = 3 \<and>
   calculateCognitiveComplexity testNested 2 None = 7"
proof -
  let ?n = "IfStatement (Identifier ''y'') (BlockStatement []) None"
  let ?p = "BlockStatement [?n]"
  have i: "isIfStatement ?n" "\<not> isElseIf ?p (Elem ''body'' 0)"
    by (simp_all add: isIfStatement_def)
  have e: "\<not> has_plain_else ?n"
    by (simp add: has_plain_else_def field_def IfStatement_def opt_field_def)
  from nested_if_scores_three
  have r: "\<forall>fn par k n s. isIfStatement n \<and> \<not> isElseIf par k \<longrightarrow>
      complexity (enter fn par k n s) =
        complexity s + (1 + nesting s) + (if has_plain_else n then 1 else 0) \<and>
      nesting (enter fn par k n s) = nesting s + 1 \<and>
      exit par k n s = s\<lparr>nesting := nesting s - 1\<rparr>"
    and b: "\<forall>b fn. calculateCognitiveComplexity testNested b fn = 3 + 2 * b"
    by blast+
  show ?thesis
    using i e r [rule_format, of ?n ?p "Elem ''body'' 0" None "\<lparr>complexity = 1, nesting = 1\<rparr>"]
      b [rule_format, of 2 None]
    by simp
qed

subsection \<open>Runs of one logical operator\<close>

lemma run_inner:
  assumes "\<And>par' k' s'. same_operator_parent op par' \<Longrightarrow> visit fn par' k' acc s' = s'"
    and "bs \<noteq> []"
  shows "visit fn par k (logical_run op acc bs) s =
     (if counted_operator (Some op) \<and> \<not> same_operator_parent op par then addFundamental s else s)"
  using assms
proof (induction bs arbitrary: acc)
  case Nil
  then show ?case by simp
next
  case (Cons b bs)
  show ?case
  proof (cases bs)
    case Nil
    then show ?thesis
      by (simp add: visit_LogicalExpression visit_Identifier Cons.prems(1))
  next
    case (Cons b' bs')
    have "visit fn par' k' (LogicalExpression op acc (Identifier b)) s' = s'"
      if "same_operator_parent op par'" for par' k' s'
      using that by (simp add: visit_LogicalExpression visit_Identifier Cons.prems(1))
    then have "visit fn par k (logical_run op (LogicalExpression op acc (Identifier b)) bs) s =
      (if counted_operator (Some op) \<and> \<not> same_operator_parent op par then addFundamental s else s)"
      using Cons.IH [of "LogicalExpression op acc (Identifier b)"] Cons by simp
    then show ?thesis by simp
  qed
qed

lemma run_counts_once:
  assumes "counted_operator (Some op)" "bs \<noteq> []" "\<not> same_operator_parent op par"
  shows "visit fn par k (logical_run op (Identifier a) bs) s = addFundamental s"
  using run_inner [of op fn "Identifier a" bs par k s] assms
  by (simp add: visit_Identifier)

lemma testBool_score: "calculateCognitiveComplexity testBool 0 (Some ''testBool'') = 2"
proof -
  have r: "LogicalExpression ''&&''
              (LogicalExpression ''&&'' (Identifier ''a'') (Identifier ''b''))
              (Identifier ''c'') = logical_run ''&&'' (Identifier ''a'') [''b'', ''c'']"
    by simp
  have p: "\<not> same_operator_parent ''&&'' (IfStatement t c a)" for t c a
    by (simp add: same_operator_parent_def isLogicalExpression_def)
  show ?thesis
    unfolding testBool_def r
    by (simp add: score_FunctionDeclaration visit_BlockStatement elems_def visit_IfStatement
        visit_empty_block counter_ops run_counts_once p counted_operator_def
        del: logical_run.simps)
qed

text \<open>
  C3. A logical expression whose operator is \<^verbatim>\<open>&&\<close>, \<^verbatim>\<open>||\<close> or \<^verbatim>\<open>??\<close> adds a flat 1
  exactly when its parent is not a logical expression with the same operator, and
  nothing otherwise. So a run \<^verbatim>\<open>a op b op c ...\<close> of one such operator, of any length,
  adds exactly 1 in all, charged at its outermost node; and the function body
  \<^verbatim>\<open>if (a && b && c) {}\<close> scores exactly 2.
\<close>

theorem logical_run_counts_once:
  "calculateCognitiveComplexity testBool 0 (Some ''testBool'') = 2 \<and>
   (\<forall>fn par k n s. isLogicalExpression n \<longrightarrow>
      enter fn par k n s =
        (if counted_operator (sprop n ''operator'') \<and>
            \<not> (isLogicalExpression par \<and> sprop par ''operator'' = sprop n ''operator'')
         then s\<lparr>complexity := complexity s + 1\<rparr> else s) \<and>
      exit par k n s = s) \<and>
   (\<forall>op a bs fn par k s.
      counted_operator (Some op) \<and> bs \<noteq> [] \<and> \<not> same_operator_parent op par \<longrightarrow>
      visit fn par k (logical_run op (Identifier a) bs) s = s\<lparr>complexity := complexity s + 1\<rparr>)"
  using testBool_score enter_logical exit_logical run_counts_once
  by (simp add: addFundamental_def)

theorem logical_run_counts_once_witness:
  "counted_operator (Some ''||'') \<and>
   \<not> same_operator_parent ''||'' (ReturnStatement None) \<and>
   visit None (ReturnStatement None) (Field ''argument'')
     (logical_run ''||'' (Identifier ''a'') [''b'', ''c'', ''d''])
     \<lparr>complexity = 0, nesting = 0\<rparr> = \<lparr>complexity = 1, nesting = 0\<rparr> \<and>
   isLogicalExpression (LogicalExpression ''||'' (Identifier ''a'') (Identifier ''b'')) \<and>
   enter None (LogicalExpression ''||'' (Identifier ''x'') (Identifier ''y'')) (Field ''left'')
     (LogicalExpression ''||'' (Identifier ''a'') (Identifier ''b''))
     \<lparr>complexity = 1, nesting = 0\<rparr> = \<lparr>complexity = 1, nesting = 0\<rparr>"
proof -
  let ?n = "LogicalExpression ''||'' (Identifier ''a'') (Identifier ''b'')"
  let ?p = "LogicalExpression ''||'' (Identifier ''x'') (Identifier ''y'')"
  have h: "counted_operator (Some ''||'')" "[''b'', ''c'', ''d''] \<noteq> []"
    "\<not> same_operator_parent ''||'' (ReturnStatement None)"
    by (simp_all add: counted_operator_def same_operator_parent_def isLogicalExpression_def
        ReturnStatement_def)
  have i: "isLogicalExpression ?n" "isLogicalExpression ?p"
    "sprop ?n ''operator'' = Some ''||''" "sprop ?p ''operator'' = Some ''||''"
    by (simp_all add: isLogicalExpression_def sprop_def LogicalExpression_def)
  from logical_run_counts_once
  have r: "\<forall>fn par k n s. isLogicalExpression n \<longrightarrow>
      enter fn par k n s =
        (if counted_operator (sprop n ''operator'') \<and>
            \<not> (isLogicalExpression par \<and> sprop par ''operator'' = sprop n ''operator'')
         then s\<lparr>complexity := complexity s + 1\<rparr> else s) \<and>
      exit par k n s = s"
    and c: "\<forall>op a bs fn par k s.
      counted_operator (Some op) \<and> bs \<noteq> [] \<and> \<not> same_operator_parent op par \<longrightarrow>
      visit fn par k (logical_run op (Identifier a) bs) s = s\<lparr>complexity := complexity s + 1\<rparr>"
    by blast+
  have "visit None (ReturnStatement None) (Field ''argument'')
     (logical_run ''||'' (Identifier ''a'') [''b'', ''c'', ''d''])
     \<lparr>complexity = 0, nesting = 0\<rparr> = \<lparr>complexity = 1, nesting = 0\<rparr>"
    using c [rule_format, of "''||''" "[''b'', ''c'', ''d'']" "ReturnStatement None"] h by simp
  moreover have "enter None ?p (Field ''left'') ?n \<lparr>complexity = 1, nesting = 0\<rparr> =
      \<lparr>complexity = 1, nesting = 0\<rparr>"
    using r [rule_format, of ?n None ?p "Field ''left''"] i by simp
  ultimately show ?thesis using h i by simp
qed

subsection \<open>Switch statements\<close>

lemma testSwitch_score: "calculateCognitiveComplexity testSwitch 0 (Some ''testSwitch'') = 2"
  by code_simp

text \<open>
  C4. A switch statement adds nothing to the complexity and raises the nesting by 1 for
  its children; its exit lowers the nesting by 1. Every switch case, with a test or
  without one (the default), adds a flat 1 and leaves the nesting alone. The function body
  \<^verbatim>\<open>switch (x) { case 1: break; default: break; }\<close> scores exactly 2.
\<close>

theorem switch_labels_cost_one:
  "calculateCognitiveComplexity testSwitch 0 (Some ''testSwitch'') = 2 \<and>
   (\<forall>fn par k n s. isSwitchStatement n \<longrightarrow>
      enter fn par k n s = s\<lparr>nesting := nesting s + 1\<rparr> \<and>
      exit par k n s = s\<lparr>nesting := nesting s - 1\<rparr>) \<and>
   (\<forall>fn par k n s. isSwitchCase n \<longrightarrow>
      enter fn par k n s = s\<lparr>complexity := complexity s + 1\<rparr> \<and>
      exit par k n s = s)"
  using testSwitch_score enter_switch exit_switch enter_case exit_case
  by (simp add: counter_ops)

theorem switch_labels_cost_one_witness:
  "isSwitchCase (SwitchCase None [BreakStatement None]) \<and>
   enter None (SwitchStatement (Identifier ''x'') []) (Elem ''cases'' 1)
     (SwitchCase None [BreakStatement None]) \<lparr>complexity = 1, nesting = 1\<rparr> =
     \<lparr>complexity = 2, nesting = 1\<rparr> \<and>
   isSwitchStatement (SwitchStatement (Identifier ''x'') []) \<and>
   enter None (BlockStatement []) (Elem ''body'' 0) (SwitchStatement (Identifier ''x'') [])
     \<lparr>complexity = 0, nesting = 0\<rparr> = \<lparr>complexity = 0, nesting = 1\<rparr> \<and>
   exit (BlockStatement []) (Elem ''body'' 0) (SwitchStatement (Identifier ''x'') [])
     \<lparr>complexity = 2, nesting = 1\<rparr> = \<lparr>complexity = 2, nesting = 0\<rparr>"
proof -
  let ?c = "SwitchCase None [BreakStatement None]"
  let ?w = "SwitchStatement (Identifier ''x'') []"
  have i: "isSwitchCase ?c" "isSwitchStatement ?w"
    by (simp_all add: isSwitchCase_def isSwitchStatement_def SwitchCase_def SwitchStatement_def)
  from switch_labels_cost_one
  have w: "\<forall>fn par k n s. isSwitchStatement n \<longrightarrow>
      enter fn par k n s = s\<lparr>nesting := nesting s + 1\<rparr> \<and>
      exit par k n s = s\<lparr>nesting := nesting s - 1\<rparr>"
    and c: "\<forall>fn par k n s. isSwitchCase n \<longrightarrow>
      enter fn par k n s = s\<lparr>complexity := complexity s + 1\<rparr> \<and>
      exit par k n s = s"
    by blast+
  show ?thesis
    using i c [rule_format, of ?c None ?w "Elem ''cases'' 1" "\<lparr>complexity = 1, nesting = 1\<rparr>"]
      w [rule_format, of ?w None "BlockStatement []" "Elem ''body'' 0"
          "\<lparr>complexity = 0, nesting = 0\<rparr>"]
      w [rule_format, of ?w None "BlockStatement []" "Elem ''body'' 0"
          "\<lparr>complexity = 2, nesting = 1\<rparr>"]
    by simp
qed

subsection \<open>Functions without control flow\<close>

lemma enter_inert:
  assumes "\<not> is_control_flow n" "\<not> is_self_call fn n"
  shows "enter fn par k n s = s"
  using assms
  by (auto simp add: enter_def is_control_flow_def control_flow_types_def is_self_call_def
      type_tests)

lemma exit_inert:
  assumes "\<not> is_control_flow n"
  shows "exit par k n s = s"
  using assms
  by (simp add: exit_def is_control_flow_def control_flow_types_def type_tests)

lemma visit_inert:
  "list_all (\<lambda>n. \<not> is_control_flow n \<and> \<not> is_self_call fn n) (nodes_of n) \<Longrightarrow>
     visit fn par k n s = s"
  "list_all (\<lambda>n. \<not> is_control_flow n \<and> \<not> is_self_call fn n) (nodes_of_kids cs) \<Longrightarrow>
     visit_kids fn par cs s = s"
proof (induction fn par k n s and fn par cs s rule: visit_visit_kids.induct)
  case (1 functionName par k t ps p cs s)
  then show ?case
    using enter_inert [of "Node t ps p cs" functionName par k s]
      exit_inert [of "Node t ps p cs" par k]
    by simp
next
  case (2 functionName par s)
  then show ?case by simp
next
  case (3 functionName par kc rest s)
  then show ?case by simp
qed

text \<open>
  The five checks that the repository runs through \<^verbatim>\<open>calculateMetrics\<close>, each on a source
  with one top-level function, whose base nesting is therefore 0: the expected values are
  the computed ones.
\<close>

lemma checks_of_the_repository:
  "map CC (collect code [] (Program [testElse])) = [2]"
  "map CC (collect code [] (Program [testElseIf])) = [2]"
  "map CC (collect code [] (Program [testBool])) = [2]"
  "map CC (collect code [] (Program [testSwitch])) = [2]"
  "map CC (collect code [] (Program [textMixed])) = [4]"
  by code_simp+

text \<open>
  C5, as the claim states it, fails: \<^verbatim>\<open>function f() { f(); }\<close> has no if, loop, switch,
  catch, conditional, logical operator or jump below it, and scores 1, because a call of
  a bare identifier equal to the function's resolved name is charged. The same happens
  without any recursion in \<^verbatim>\<open>(function () { anonymous(); })\<close>, whose resolved name is
  \<^verbatim>\<open>anonymous\<close>.
\<close>

theorem no_control_flow_counterexample:
  "control_flow_free selfCall \<and> calculateCognitiveComplexity selfCall 0 (Some ''f'') = 1 \<and>
   control_flow_free callsAnonymousFunction \<and>
   map (\<lambda>r. (function_record.name r, CC r)) (collect ''(function () { anonymous(); })'' [] callsAnonymous) =
     [(Some ''anonymous'', 1)]"
  by code_simp

text \<open>
  C5, amended. A function with no control-flow construct below it and no call of a bare
  identifier equal to \<^verbatim>\<open>functionName\<close> below it scores exactly 0, whatever the base
  nesting.
\<close>

theorem no_control_flow_scores_zero:
  assumes "control_flow_free f" "self_call_free fn f"
  shows "calculateCognitiveComplexity f b fn = 0"
proof -
  have "list_all (\<lambda>n. \<not> is_control_flow n \<and> \<not> is_self_call fn n) (nodes_of_kids (kids f))"
    using assms by (simp add: control_flow_free_def self_call_free_def list_all_iff)
  then show ?thesis
    by (simp add: calculateCognitiveComplexity_def visit_inert(2))
qed

theorem no_control_flow_scores_zero_witness:
  "control_flow_free plainCall \<and> self_call_free (Some ''g'') plainCall \<and>
   calculateCognitiveComplexity plainCall 3 (Some ''g'') = 0"
proof -
  have h: "control_flow_free plainCall" "self_call_free (Some ''g'') plainCall"
    by code_simp+
  show ?thesis
    using h no_control_flow_scores_zero [OF h, of 3] by simp
qed

subsection \<open>Scores are never negative\<close>

lemma enter_nesting_bounds:
  assumes "0 \<le> nesting s" "isIfStatement n \<and> isElseIf par k \<longrightarrow> 1 \<le> nesting s"
  shows "complexity s \<le> complexity (enter fn par k n s)"
    and "nesting s \<le> nesting (enter fn par k n s)"
    and "isIfStatement n \<longrightarrow> 1 \<le> nesting (enter fn par k n s)"
    and "nesting (exit par k n s') = nesting s' - (nesting (enter fn par k n s) - nesting s)"
  using assms
  by (auto simp add: enter_def exit_def Let_def counter_ops type_tests)

lemma exit_complexity: "complexity (exit par k n s) = complexity s"
  by (simp add: exit_def decNesting_def)

text \<open>
  The walk leaves the nesting where it found it and never lowers the complexity, as long
  as the nesting is not negative, and is at least 1 where an else-if is entered (its
  parent, an if statement, has raised it).
\<close>

lemma visit_bounds:
  "0 \<le> nesting s \<Longrightarrow> (isIfStatement n \<and> isElseIf par k \<longrightarrow> 1 \<le> nesting s) \<Longrightarrow>
     nesting (visit fn par k n s) = nesting s \<and> complexity s \<le> complexity (visit fn par k n s)"
  "0 \<le> nesting s \<Longrightarrow> (isIfStatement par \<longrightarrow> 1 \<le> nesting s) \<Longrightarrow>
     nesting (visit_kids fn par cs s) = nesting s \<and>
     complexity s \<le> complexity (visit_kids fn par cs s)"
proof (induction fn par k n s and fn par cs s rule: visit_visit_kids.induct)
  case (1 fn par k t ps p cs s)
  let ?n = "Node t ps p cs"
  show ?case
  proof (cases "isFunction ?n")
    case True
    then show ?thesis by simp
  next
    case False
    let ?s1 = "enter fn par k ?n s"
    let ?s2 = "visit_kids fn ?n cs ?s1"
    note b = enter_nesting_bounds [OF "1.prems", where fn = fn]
    have "0 \<le> nesting ?s1" using b(2) "1.prems"(1) by linarith
    moreover have "isIfStatement ?n \<longrightarrow> 1 \<le> nesting ?s1" using b(3) .
    ultimately have k: "nesting ?s2 = nesting ?s1" "complexity ?s1 \<le> complexity ?s2"
      using "1.IH" [OF False] by blast+
    have v: "visit fn par k ?n s = exit par k ?n ?s2"
      using False by simp
    have "nesting (visit fn par k ?n s) = nesting s"
      unfolding v b(4) [where s' = ?s2] k by simp
    moreover have "complexity s \<le> complexity (visit fn par k ?n s)"
      unfolding v exit_complexity using b(1) k(2) by linarith
    ultimately show ?thesis by blast
  qed
next
  case (2 fn par s)
  then show ?case by simp
next
  case (3 fn par kc rest s)
  let ?s1 = "visit fn par (fst kc) (snd kc) s"
  have p: "isIfStatement (snd kc) \<and> isElseIf par (fst kc) \<longrightarrow> 1 \<le> nesting s"
    using "3.prems"(2) by (simp add: isElseIf_def)
  have a: "nesting ?s1 = nesting s" "complexity s \<le> complexity ?s1"
    using "3.IH"(1) [OF "3.prems"(1) p] by blast+
  have "nesting (visit_kids fn par rest ?s1) = nesting ?s1 \<and>
      complexity ?s1 \<le> complexity (visit_kids fn par rest ?s1)"
    using "3.IH"(2) "3.prems" a(1) by simp
  then show ?case using a by simp
qed

lemma score_nonneg:
  assumes "0 \<le> b" "\<not> isIfStatement f"
  shows "0 \<le> calculateCognitiveComplexity f b fn"
  using visit_bounds(2) [of "\<lparr>complexity = 0, nesting = b\<rparr>" f fn "kids f"] assms
  by (simp add: calculateCognitiveComplexity_def)

lemma collect_nonneg:
  "r \<in> set (collect code anc n) \<Longrightarrow> 0 \<le> CC r"
  "r \<in> set (collect_kids code anc cs) \<Longrightarrow> 0 \<le> CC r"
proof (induction code anc n and code anc cs rule: collect_collect_kids.induct)
  case (1 code ancestors t ps p cs)
  have "0 \<le> CC (function_entry code ancestors (Node t ps p cs))"
    if "isFunction (Node t ps p cs)"
  proof -
    have "\<not> isIfStatement (Node t ps p cs)"
      using that by (auto simp add: type_tests)
    then show ?thesis
      by (simp add: function_entry_def Let_def score_nonneg base_nesting_def)
  qed
  then show ?case using 1 by (auto split: if_splits)
next
  case (2 code ancestors)
  then show ?case by simp
next
  case (3 code ancestors kc rest)
  then show ?case by auto
qed

section \<open>Name resolution\<close>

lemma own_name_first:
  assumes "name_in fnNode ''id'' = Some x" "x \<noteq> ''anonymous''"
  shows "resolve_name par fnNode = Some x"
  using assms by (simp add: resolve_name_def)

lemma unnamed_resolution:
  assumes "name_in fnNode ''id'' = None"
  shows "resolve_name par fnNode =
    (if (case par of None \<Rightarrow> False | Some q \<Rightarrow> isVariableDeclarator q \<and> identifier_in q ''id'')
     then name_in (the par) ''id''
     else if (case par of None \<Rightarrow> False | Some q \<Rightarrow> isObjectProperty q \<and> identifier_in q ''key'')
     then name_in (the par) ''key''
     else if (isClassMethod fnNode \<or> isObjectMethod fnNode) \<and> identifier_in fnNode ''key''
     then name_in fnNode ''key''
     else Some ''anonymous'')"
  using assms by (simp add: resolve_name_def Let_def)

lemma resolution_examples:
  "map function_record.name (collect code [] constFoo) = [Some ''foo'']"
  "map function_record.name (collect code [] objectFoo) = [Some ''foo'']"
  "map function_record.name (collect code [] unassigned) = [Some ''anonymous'']"
  by code_simp+

text \<open>
  C6. The three examples resolve as the claim says (\<open>resolution_examples\<close>), an own
  identifier other than \<^verbatim>\<open>anonymous\<close> wins (\<open>own_name_first\<close>) and a function
  without one follows the stated order (\<open>unnamed_resolution\<close>). But the code tells
  "no own identifier" by comparing the name with the string \<^verbatim>\<open>'anonymous'\<close>, so a
  function whose own declared identifier is \<^verbatim>\<open>anonymous\<close> is named after its
  binding: \<^verbatim>\<open>const foo = function anonymous() {}\<close> resolves to \<^verbatim>\<open>foo\<close>, where the
  claim gives the own identifier.
\<close>

theorem named_anonymous_takes_binding_name:
  "name_in anonymousNamed ''id'' = Some ''anonymous'' \<and>
   map function_record.name (collect code [] namedAnonymous) = [Some ''foo'']"
  by code_simp

section \<open>Archive root detection\<close>

lemma detect_step_skipped: "\<not> counted e \<Longrightarrow> detect_step st e = st"
  by (auto simp add: detect_step_def counted_def Let_def)

lemma detect_step_counted:
  assumes "counted e"
  shows "detect_step (counts, h) e =
     (AList.update (topLevelName (entryName e))
        ((case map_of counts (topLevelName (entryName e)) of None \<Rightarrow> 0 | Some c \<Rightarrow> c) + 1) counts,
      h \<or> CHR ''/'' \<notin> set (entryName e))"
  using assms by (simp add: detect_step_def counted_def Let_def)

lemma detect_loop:
  "set (map fst (fst (foldl detect_step (counts, h) es))) =
     set (map fst counts) \<union> set (map (topLevelName \<circ> entryName) (filter counted es))"
  "distinct (map fst counts) \<Longrightarrow> distinct (map fst (fst (foldl detect_step (counts, h) es)))"
  "snd (foldl detect_step (counts, h) es) =
     (h \<or> (\<exists>e \<in> set (filter counted es). CHR ''/'' \<notin> set (entryName e)))"
proof (induction es arbitrary: counts h)
  case Nil
  { case 1 show ?case by simp }
  { case 2 then show ?case by simp }
  { case 3 show ?case by simp }
next
  case (Cons e es)
  { case 1 show ?case
    proof (cases "counted e")
      case True
      show ?thesis
        unfolding foldl_Cons detect_step_counted [OF True]
        using True Cons.IH(1) [of "AList.update (topLevelName (entryName e))
          ((case map_of counts (topLevelName (entryName e)) of None \<Rightarrow> 0 | Some c \<Rightarrow> c) + 1) counts"
          "h \<or> CHR ''/'' \<notin> set (entryName e)"]
        by (simp add: dom_update)
    next
      case False
      then show ?thesis using Cons.IH(1) [of counts h] by (simp add: detect_step_skipped)
    qed }
  { case 2 then show ?case
    proof (cases "counted e")
      case True
      show ?thesis
        unfolding foldl_Cons detect_step_counted [OF True]
        by (rule Cons.IH(2)) (simp add: distinct_update 2)
    next
      case False
      then show ?thesis using 2 by (simp add: detect_step_skipped Cons.IH(2))
    qed }
  { case 3 show ?case
    proof (cases "counted e")
      case True
      show ?thesis
        unfolding foldl_Cons detect_step_counted [OF True] Cons.IH(3)
        using True by auto
    next
      case False
      then show ?thesis using Cons.IH(3) [of counts h] by (simp add: detect_step_skipped)
    qed }
qed

lemma singleton_keys:
  assumes "distinct ks"
  shows "(ks = [t]) = (set ks = {t})"
proof
  assume "set ks = {t}"
  moreover from assms have "length ks = card (set ks)"
    by (simp add: distinct_card)
  ultimately have "length ks = 1" by simp
  then obtain x where "ks = [x]"
    by (cases ks) auto
  with \<open>set ks = {t}\<close> show "ks = [t]" by simp
qed simp

lemma strip_without_slash: "CHR ''/'' \<notin> set nm \<Longrightarrow> strip_dot_slashes nm = nm"
  by (auto simp add: strip_dot_slashes_def split: list.splits)

lemma detect_examples:
  "detectZipRootFolder example_root = Some ''root''"
  "detectZipRootFolder example_top_file = None"
  "detectZipRootFolder example_two_roots = None"
  by code_simp+

lemma detect_result:
  assumes "foldl detect_step ([], False) es = (counts, h)"
  shows "detectZipRootFolder es =
     (if h then None else (case map fst counts of [t] \<Rightarrow> Some t | _ \<Rightarrow> None))"
proof (cases counts)
  case Nil
  then show ?thesis using assms by (simp add: detectZipRootFolder_def)
next
  case (Cons kv rest)
  then show ?thesis using assms by (cases rest) (simp_all add: detectZipRootFolder_def)
qed

lemma singleton_case:
  assumes "distinct ks" "distinct ts" "set ks = set ts"
  shows "(case ks of [t] \<Rightarrow> Some t | _ \<Rightarrow> None) = (case ts of [t] \<Rightarrow> Some t | _ \<Rightarrow> None)"
proof (cases "\<exists>t. set ts = {t}")
  case True
  then obtain t where "set ts = {t}" ..
  then have "ts = [t]" "ks = [t]"
    using singleton_keys [OF assms(1), of t] singleton_keys [OF assms(2), of t] assms(3)
    by blast+
  then show ?thesis by simp
next
  case False
  have "ts \<noteq> [t]" "ks \<noteq> [t]" for t
  proof -
    show "ts \<noteq> [t]" using False by auto
    show "ks \<noteq> [t]"
    proof
      assume "ks = [t]"
      then have "set ts = {t}" using assms(3) by simp
      then show False using False by blast
    qed
  qed
  then have "(case ts of [t] \<Rightarrow> Some t | _ \<Rightarrow> None) = None"
    "(case ks of [t] \<Rightarrow> Some t | _ \<Rightarrow> None) = None"
    by (auto split: list.splits)
  then show ?thesis by simp
qed

lemma detect_general:
  assumes "list_all (\<lambda>e. \<not> dot_slash_file (entryName e)) (filter counted es)"
  shows "detectZipRootFolder es =
     (if list_ex (\<lambda>e. CHR ''/'' \<notin> set (strip_dot_slashes (entryName e))) (filter counted es)
      then None
      else (case remdups (map (topLevelName \<circ> entryName) (filter counted es)) of
              [t] \<Rightarrow> Some t
            | _ \<Rightarrow> None))"
proof -
  obtain counts h where st: "foldl detect_step ([], False) es = (counts, h)"
    by (cases "foldl detect_step ([], False) es")
  define cs where "cs = filter counted es"
  define tops where "tops = map (topLevelName \<circ> entryName) cs"
  have keys: "set (map fst counts) = set tops"
    using detect_loop(1) [of "[]" False es] unfolding st tops_def cs_def by simp
  have dist: "distinct (map fst counts)"
    using detect_loop(2) [of "[]" False es] unfolding st by simp
  have has: "h = (\<exists>e \<in> set cs. CHR ''/'' \<notin> set (entryName e))"
    using detect_loop(3) [of "[]" False es] unfolding st cs_def by simp
  have raw: "(CHR ''/'' \<notin> set (entryName e)) = (CHR ''/'' \<notin> set (strip_dot_slashes (entryName e)))"
    if "e \<in> set cs" for e
  proof -
    from assms that have "\<not> dot_slash_file (entryName e)"
      unfolding cs_def list_all_iff by blast
    then show ?thesis
      using strip_without_slash [of "entryName e"]
      by (cases "CHR ''/'' \<in> set (entryName e)") (simp_all add: dot_slash_file_def)
  qed
  have has': "h = list_ex (\<lambda>e. CHR ''/'' \<notin> set (strip_dot_slashes (entryName e))) cs"
    unfolding has list_ex_iff using raw by blast
  have "set (map fst counts) = set (remdups tops)"
    unfolding keys by simp
  then have "(case map fst counts of [t] \<Rightarrow> Some t | _ \<Rightarrow> None) =
      (case remdups tops of [t] \<Rightarrow> Some t | _ \<Rightarrow> None)"
    by (rule singleton_case [OF dist distinct_remdups])
  then show ?thesis
    unfolding detect_result [OF st] has' tops_def cs_def by simp
qed

text \<open>The slip that the amended statement leaves aside: the test for a file at the top
  level looks at the path before \<^verbatim>\<open>./\<close> is stripped, so a lone \<^verbatim>\<open>./a.js\<close> is taken
  for a root folder.\<close>

lemma dot_slash_file_taken_for_root:
  "detectZipRootFolder example_dot_slash = Some ''a.js''"
  by code_simp

text \<open>
  C7, as the claim states it, fails: the entries \<^verbatim>\<open>__MACOSX/x.js\<close> and \<^verbatim>\<open>root/y.js\<close>
  have two distinct first segments, and the detected root is \<^verbatim>\<open>root\<close>, not null.
\<close>

theorem root_detection_counterexample:
  "detectZipRootFolder example_macosx = Some ''root'' \<and>
   remdups (map (topLevelName \<circ> entryName) example_macosx) = [''__MACOSX'', ''root'']"
  by code_simp

text \<open>
  C7, amended. Entries that are directories, have an empty name, or whose first segment
  (after stripping a leading \<^verbatim>\<open>./\<close>) is empty or \<^verbatim>\<open>__MACOSX\<close> are ignored. Over the
  other entries, when none of them is a top-level file written with a leading \<^verbatim>\<open>./\<close>:
  detection returns null whenever some entry path contains no slash, the first segment
  when exactly one distinct first segment exists, and null otherwise. The three example
  lists detect \<^verbatim>\<open>root\<close>, null and null.
\<close>

theorem root_detection:
  assumes "list_all (\<lambda>e. \<not> dot_slash_file (entryName e)) (filter counted es)"
  shows "detectZipRootFolder es =
     (if list_ex (\<lambda>e. CHR ''/'' \<notin> set (strip_dot_slashes (entryName e))) (filter counted es)
      then None
      else (case remdups (map (topLevelName \<circ> entryName) (filter counted es)) of
              [t] \<Rightarrow> Some t
            | _ \<Rightarrow> None)) \<and>
   detectZipRootFolder example_root = Some ''root'' \<and>
   detectZipRootFolder example_top_file = None \<and>
   detectZipRootFolder example_two_roots = None"
  using detect_general [OF assms] detect_examples by simp

theorem root_detection_witness:
  "list_all (\<lambda>e. \<not> dot_slash_file (entryName e)) (filter counted example_project) \<and>
   map entryName (filter counted example_project) = [''proj/src/a.js'', ''./proj/b.ts''] \<and>
   remdups (map (topLevelName \<circ> entryName) (filter counted example_project)) = [''proj''] \<and>
   detectZipRootFolder example_project = Some ''proj''"
proof -
  have h: "list_all (\<lambda>e. \<not> dot_slash_file (entryName e)) (filter counted example_project)"
    by code_simp
  have c: "map entryName (filter counted example_project) = [''proj/src/a.js'', ''./proj/b.ts'']"
    and r: "remdups (map (topLevelName \<circ> entryName) (filter counted example_project)) = [''proj'']"
    by code_simp+
  have e: "(if list_ex (\<lambda>e. CHR ''/'' \<notin> set (strip_dot_slashes (entryName e)))
              (filter counted example_project)
      then None
      else (case remdups (map (topLevelName \<circ> entryName) (filter counted example_project)) of
              [t] \<Rightarrow> Some t
            | _ \<Rightarrow> None)) = Some ''proj''"
    by code_simp
  have "detectZipRootFolder example_project = Some ''proj''"
    using root_detection [OF h, THEN conjunct1] unfolding e .
  then show ?thesis
    using h c r by blast
qed

section \<open>Batch analysis\<close>

lemma walk_is_map:
  "process_entry parse dir e results =
     results @ map (\<lambda>(rel, code). analyzeFileAt parse rel code) (code_files_entry dir e)"
  "processDirectory parse dir es results =
     results @ map (\<lambda>(rel, code). analyzeFileAt parse rel code) (code_files dir es)"
  by (induction parse dir e results and parse dir es results
      rule: process_entry_processDirectory.induct) simp_all

lemma parse_failure_result:
  "parse code = Inl msg \<Longrightarrow>
   analyzeFileAt parse rel code = \<lparr>fileName = rel, metrics = None, error = Some msg\<rparr>"
  by (simp add: analyzeFileAt_def calculateMetrics_def)

lemma two_variants:
  "fileName (analyzeFileAt parse rel code) = rel \<and>
   (metrics (analyzeFileAt parse rel code) = None) \<noteq> (error (analyzeFileAt parse rel code) = None)"
  by (simp add: analyzeFileAt_def split: sum.splits)

text \<open>
  C8. A file whose source fails to parse yields a result with its file name and the error
  message and no metrics; every result has exactly one of the two. The walk pushes, for
  each code file it meets, the result of that file alone, in order: the results are the
  map of \<^verbatim>\<open>analyzeFileAt\<close> over the code files, so a failure changes no other result
  and drops none.
\<close>

theorem parse_failure_stays_in_its_file:
  "(\<forall>rel code msg. parse code = Inl msg \<longrightarrow>
      analyzeFileAt parse rel code = \<lparr>fileName = rel, metrics = None, error = Some msg\<rparr>) \<and>
   (\<forall>rel code. fileName (analyzeFileAt parse rel code) = rel \<and>
      (metrics (analyzeFileAt parse rel code) = None) \<noteq>
      (error (analyzeFileAt parse rel code) = None)) \<and>
   (\<forall>es. processDirectory parse [] es [] =
      map (\<lambda>(rel, code). analyzeFileAt parse rel code) (code_files [] es))"
  using parse_failure_result [of parse] two_variants [of parse] walk_is_map(2) [of parse "[]" _ "[]"]
  by simp

theorem parse_failure_stays_in_its_file_witness:
  "smallParser ''bad'' = Inl ''Unexpected token'' \<and>
   analyzeFileAt smallParser ''bad.js'' ''bad'' =
     \<lparr>fileName = ''bad.js'', metrics = None, error = Some ''Unexpected token''\<rparr> \<and>
   code_files [] smallArchive = [(''bad.js'', ''bad''), (''src/ok.js'', ''good'')] \<and>
   map fileName (processDirectory smallParser [] smallArchive []) = [''bad.js'', ''src/ok.js''] \<and>
   map error (processDirectory smallParser [] smallArchive []) = [Some ''Unexpected token'', None] \<and>
   map (\<lambda>r. metrics r = None) (processDirectory smallParser [] smallArchive []) = [True, False]"
proof -
  have p: "smallParser ''bad'' = Inl ''Unexpected token''"
    by (simp add: smallParser_def)
  have g: "\<exists>m. calculateMetrics smallParser ''good'' = Inr m"
    by (simp add: calculateMetrics_def smallParser_def Let_def)
  have c: "code_files [] smallArchive = [(''bad.js'', ''bad''), (''src/ok.js'', ''good'')]"
    by code_simp
  from parse_failure_stays_in_its_file [of smallParser]
  have f: "\<forall>rel code msg. smallParser code = Inl msg \<longrightarrow>
      analyzeFileAt smallParser rel code = \<lparr>fileName = rel, metrics = None, error = Some msg\<rparr>"
    and w: "\<forall>es. processDirectory smallParser [] es [] =
      map (\<lambda>(rel, code). analyzeFileAt smallParser rel code) (code_files [] es)"
    by blast+
  have b: "analyzeFileAt smallParser ''bad.js'' ''bad'' =
     \<lparr>fileName = ''bad.js'', metrics = None, error = Some ''Unexpected token''\<rparr>"
    using f p by blast
  obtain m where "calculateMetrics smallParser ''good'' = Inr m"
    using g ..
  then have o: "analyzeFileAt smallParser ''src/ok.js'' ''good'' =
     \<lparr>fileName = ''src/ok.js'', metrics = Some m, error = None\<rparr>"
    by (simp add: analyzeFileAt_def)
  show ?thesis
    using p b by (simp add: w [rule_format] c o)
qed

section \<open>The inline-code report\<close>

lemma round_half_even_bound: "\<bar>of_int (round_half_even x) - x\<bar> \<le> 1 / 2"
proof -
  have "of_int \<lfloor>x\<rfloor> \<le> x" "x < of_int \<lfloor>x\<rfloor> + 1"
    by linarith+
  then show ?thesis
    by (auto simp add: round_half_even_def Let_def)
qed

lemma exponent_lower:
  assumes "0 < q"
  shows "2 powi (exponent_of q) \<le> q"
proof -
  obtain a b where ab: "quotient_of q = (a, b)"
    by (cases "quotient_of q")
  have b: "0 < b" using quotient_of_denom_pos [OF ab] .
  have q: "q = of_int a / of_int b" using quotient_of_div [OF ab] .
  have a: "0 < a"
    using assms b unfolding q by (simp add: zero_less_divide_iff)
  let ?e0 = "bitlen a - bitlen b"
  show ?thesis
  proof (cases "2 powi ?e0 \<le> q")
    case True
    then show ?thesis by (simp add: exponent_of_def ab)
  next
    case False
    have la: "(2::int) ^ nat (bitlen a - 1) \<le> a" and lb: "b < 2 ^ nat (bitlen b)"
      using bitlen_bounds [OF a] bitlen_bounds [OF b] by simp_all
    have pa: "1 \<le> bitlen a" and pb: "1 \<le> bitlen b"
      using a b by (simp_all add: bitlen_alt_def)
    have "(2::rat) powi (bitlen a - 1) = of_int (2 ^ nat (bitlen a - 1))"
      using pa by (simp add: power_int_def)
    also have "\<dots> \<le> of_int a" using la by (simp only: of_int_le_iff)
    finally have A: "(2::rat) powi (bitlen a - 1) \<le> of_int a" .
    have "(of_int b :: rat) < of_int (2 ^ nat (bitlen b))"
      using lb by (simp only: of_int_less_iff)
    also have "\<dots> = 2 powi (bitlen b)"
      using pb by (simp add: power_int_def)
    finally have B: "(of_int b :: rat) < 2 powi (bitlen b)" .
    have "(2::rat) powi (?e0 - 1) = 2 powi (bitlen a - 1) / 2 powi (bitlen b)"
      by (simp add: power_int_diff)
    also have "\<dots> \<le> of_int a / 2 powi (bitlen b)"
      using A by (simp add: divide_right_mono)
    also have "\<dots> \<le> of_int a / of_int b"
      using B a b by (simp add: frac_le)
    finally have "(2::rat) powi (?e0 - 1) \<le> q" unfolding q .
    then show ?thesis using False by (simp add: exponent_of_def ab)
  qed
qed

lemma exponent_upper:
  assumes "0 < q"
  shows "q < 2 powi (exponent_of q + 1)"
proof -
  obtain a b where ab: "quotient_of q = (a, b)"
    by (cases "quotient_of q")
  have b: "0 < b" using quotient_of_denom_pos [OF ab] .
  have q: "q = of_int a / of_int b" using quotient_of_div [OF ab] .
  have a: "0 < a"
    using assms b unfolding q by (simp add: zero_less_divide_iff)
  let ?e0 = "bitlen a - bitlen b"
  show ?thesis
  proof (cases "2 powi ?e0 \<le> q")
    case False
    then show ?thesis by (simp add: exponent_of_def ab)
  next
    case True
    have la: "a < 2 ^ nat (bitlen a)" and lb: "(2::int) ^ nat (bitlen b - 1) \<le> b"
      using bitlen_bounds [OF a] bitlen_bounds [OF b] by simp_all
    have pa: "1 \<le> bitlen a" and pb: "1 \<le> bitlen b"
      using a b by (simp_all add: bitlen_alt_def)
    have "(of_int a :: rat) < of_int (2 ^ nat (bitlen a))"
      using la by (simp only: of_int_less_iff)
    also have "\<dots> = 2 powi (bitlen a)"
      using pa by (simp add: power_int_def)
    finally have A: "(of_int a :: rat) < 2 powi (bitlen a)" .
    have "(2::rat) powi (bitlen b - 1) = of_int (2 ^ nat (bitlen b - 1))"
      using pb by (simp add: power_int_def)
    also have "\<dots> \<le> of_int b" using lb by (simp only: of_int_le_iff)
    finally have B: "(2::rat) powi (bitlen b - 1) \<le> of_int b" .
    have B0: "(0::rat) < 2 powi (bitlen b - 1)" by simp
    have "q < 2 powi (bitlen a) / of_int b"
      unfolding q using A b by (simp add: divide_strict_right_mono)
    also have "\<dots> \<le> 2 powi (bitlen a) / 2 powi (bitlen b - 1)"
      using B B0 by (simp add: frac_le)
    also have "\<dots> = 2 powi (?e0 + 1)"
      by (simp add: power_int_diff power_int_add)
    finally show ?thesis using True by (simp add: exponent_of_def ab)
  qed
qed

lemma double_of_error:
  assumes "0 < q"
  shows "\<bar>double_of q - q\<bar> \<le> q / 2 ^ 53"
proof -
  define e where "e = exponent_of q"
  define u :: rat where "u = 2 powi (e - 52)"
  define m where "m = round_half_even (q / u)"
  have u: "0 < u" by (simp add: u_def)
  have d: "double_of q = of_int m * u"
    using assms by (simp add: double_of_def Let_def e_def u_def m_def)
  have "of_int m * u - q = (of_int m - q / u) * u"
    using u by (simp add: left_diff_distrib)
  then have "\<bar>of_int m * u - q\<bar> = \<bar>of_int m - q / u\<bar> * u"
    using u by (simp add: abs_mult)
  also have "\<dots> \<le> 1 / 2 * u"
    using round_half_even_bound [of "q / u"] u
    unfolding m_def by (intro mult_right_mono) simp_all
  also have "\<dots> = 2 powi e / 2 ^ 53"
    by (simp add: u_def power_int_diff)
  also have "\<dots> \<le> q / 2 ^ 53"
    using exponent_lower [OF assms] by (simp add: e_def divide_right_mono)
  finally show ?thesis unfolding d .
qed

lemma toFixed2_error: "\<bar>toFixed2 x - x\<bar> \<le> 1 / 200"
proof -
  have f: "\<bar>of_int \<lfloor>100 * y + 1 / 2\<rfloor> / 100 - y\<bar> \<le> 1 / 200" for y :: rat
  proof -
    define n :: rat where "n = of_int \<lfloor>100 * y + 1 / 2\<rfloor>"
    have "n \<le> 100 * y + 1 / 2" "100 * y + 1 / 2 < n + 1"
      unfolding n_def by linarith+
    then have "n / 100 - y \<le> 1 / 200" "- (1 / 200) \<le> n / 100 - y"
      by linarith+
    then have "\<bar>n / 100 - y\<bar> \<le> 1 / 200"
      by linarith
    then show ?thesis unfolding n_def .
  qed
  show ?thesis
  proof (cases "x < 0")
    case True
    have "\<bar>- (of_int \<lfloor>100 * (- x) + 1 / 2\<rfloor> / 100) - x\<bar> =
        \<bar>of_int \<lfloor>100 * (- x) + 1 / 2\<rfloor> / 100 - (- x)\<bar>"
      by (simp only: abs_minus_commute [of "- (of_int \<lfloor>100 * (- x) + 1 / 2\<rfloor> / 100)" x]
          diff_minus_eq_add add.commute)
    then show ?thesis
      using f [of "- x"] True by (simp only: toFixed2_def if_True)
  next
    case False
    then show ?thesis
      using f [of x] by (simp only: toFixed2_def if_False)
  qed
qed

lemma toFixed2_hundredths: "\<exists>n::int. toFixed2 x = of_int n / 100"
  by (cases "x < 0") (auto simp add: toFixed2_def intro: exI [of _ "- \<lfloor>100 * (- x) + 1 / 2\<rfloor>"])

lemma average_error:
  assumes "0 \<le> q"
  shows "\<bar>toFixed2 (double_of q) - q\<bar> \<le> 1 / 200 + q / 2 ^ 53"
proof (cases "q = 0")
  case True
  have "\<lfloor>(1::rat) / 2\<rfloor> = 0"
    by (rule floor_unique) simp_all
  with True show ?thesis by (simp add: double_of_def toFixed2_def)
next
  case False
  with assms have "0 < q" by simp
  then have "\<bar>double_of q - q\<bar> \<le> q / 2 ^ 53" by (rule double_of_error)
  moreover have "\<bar>toFixed2 (double_of q) - double_of q\<bar> \<le> 1 / 200"
    by (rule toFixed2_error)
  ultimately show ?thesis by linarith
qed

lemma flatten_step_apply:
  "flatten_step (sm, mx, out) f =
     (sm + CC f, (if mx < CC f then CC f else mx), out @ [flat_entry f])"
  by (simp add: flatten_step_def Let_def)

lemma Max_step:
  fixes mx c :: int
  assumes "finite S"
  shows "Max (insert (if mx < c then c else mx) S) = Max (insert mx (insert c S))"
proof (cases "S = {}")
  case True
  then show ?thesis by (simp add: max_def)
next
  case False
  with assms have "Max (insert x S) = max x (Max S)" for x :: int
    by simp
  moreover from assms False
  have "Max (insert mx (insert c S)) = max mx (max c (Max S))"
    by simp
  ultimately show ?thesis by (simp add: max_def)
qed

lemma flatten_loop:
  "foldl flatten_step (sm, mx, out) fs =
     (sm + sum_list (map CC fs), Max (set (mx # map CC fs)), out @ map flat_entry fs)"
proof (induction fs arbitrary: sm mx out)
  case Nil
  then show ?case by simp
next
  case (Cons f fs)
  have "foldl flatten_step (sm, mx, out) (f # fs) =
      foldl flatten_step (sm + CC f, (if mx < CC f then CC f else mx), out @ [flat_entry f]) fs"
    by (simp only: foldl_Cons flatten_step_apply)
  also have "\<dots> = (sm + CC f + sum_list (map CC fs),
      Max (set ((if mx < CC f then CC f else mx) # map CC fs)),
      (out @ [flat_entry f]) @ map flat_entry fs)"
    by (rule Cons.IH)
  also have "\<dots> = (sm + sum_list (map CC (f # fs)), Max (set (mx # map CC (f # fs))),
      out @ map flat_entry (f # fs))"
    using Max_step [of "set (map CC fs)" mx "CC f"] by (simp add: add.assoc)
  finally show ?case .
qed

lemma Max_with_zero:
  assumes "xs \<noteq> []" "\<forall>x \<in> set xs. (0::int) \<le> x"
  shows "Max (set (0 # xs)) = Max (set xs)"
proof -
  from assms(1) obtain x where x: "x \<in> set xs" by (cases xs) auto
  have "x \<le> Max (set xs)" using x by simp
  moreover have "0 \<le> x" using assms(2) x by blast
  ultimately have "0 \<le> Max (set xs)" by linarith
  then show ?thesis using assms(1) by (simp add: max_def)
qed

lemma analyze_code_report:
  assumes "code \<noteq> []" "fname \<noteq> []" "parse code = Inr ast"
  shows "analyze_code parse code fname =
     Json \<lparr>filename = fname, language = ''javascript'',
           total_loc = count_lines code, total_nloc = count_nonblank code,
           function_count = length (collect code [] ast),
           complexity_avg =
             (if collect code [] ast = [] then Num 0
              else Num (toFixed2 (double_of (of_int (sum_list (map CC (collect code [] ast))) /
                     of_nat (length (collect code [] ast)))))),
           complexity_max = Max (set (0 # map CC (collect code [] ast))),
           functions = map flat_entry (collect code [] ast)\<rparr>"
  using assms
  by (simp add: analyze_code_def calculateMetrics_def Let_def flatten_loop js_divide_def
      parse_fixed2_def)

lemma mean_nonneg:
  assumes "\<forall>f \<in> set fs. 0 \<le> CC f"
  shows "(0::rat) \<le> of_int (sum_list (map CC fs)) / of_nat (length fs)"
proof -
  have "0 \<le> sum_list (map CC fs)"
    using assms by (intro sum_list_nonneg) auto
  then show ?thesis by simp
qed

text \<open>
  C9. When the request is accepted and the source parses, the response is the flattened
  report: one entry per function, in order, whose \<^verbatim>\<open>cyclomatic_complexity\<close> is the
  cognitive score, whose \<^verbatim>\<open>long_name\<close> is its \<^verbatim>\<open>name\<close>, and whose \<^verbatim>\<open>end_line\<close>,
  \<^verbatim>\<open>token_count\<close> and \<^verbatim>\<open>max_nesting_depth\<close> are 0. \<^verbatim>\<open>complexity_max\<close> is the maximum
  of the scores, and \<^verbatim>\<open>complexity_avg\<close> is their mean rounded to two decimals: a
  multiple of \<open>1 / 100\<close> that differs from the mean by at most half a hundredth, plus
  the rounding of the double division.
\<close>

theorem inline_report_is_flattened:
  fixes code fname :: string and parse :: parser and ast :: node
  defines "fs \<equiv> collect code [] ast"
  defines "mean \<equiv> of_int (sum_list (map CC (collect code [] ast))) /
     of_nat (length (collect code [] ast))"
  assumes "code \<noteq> []" "fname \<noteq> []" "parse code = Inr ast"
  shows "analyze_code parse code fname =
     Json \<lparr>filename = fname, language = ''javascript'',
           total_loc = count_lines code, total_nloc = count_nonblank code,
           function_count = length fs,
           complexity_avg = (if fs = [] then Num 0 else Num (toFixed2 (double_of mean))),
           complexity_max = Max (set (0 # map CC fs)),
           functions = map flat_entry fs\<rparr> \<and>
   (\<forall>f. cyclomatic_complexity (flat_entry f) = CC f \<and>
        nloc (flat_entry f) = function_record.NLOC f \<and>
        name (flat_entry f) = function_record.name f \<and>
        long_name (flat_entry f) = name (flat_entry f) \<and>
        start_line (flat_entry f) = lineStart f \<and>
        end_line (flat_entry f) = 0 \<and>
        token_count (flat_entry f) = 0 \<and>
        max_nesting_depth (flat_entry f) = 0) \<and>
   (fs \<noteq> [] \<longrightarrow>
      Max (set (0 # map CC fs)) = Max (set (map CC fs)) \<and>
      (\<exists>n::int. toFixed2 (double_of mean) = of_int n / 100) \<and>
      \<bar>toFixed2 (double_of mean) - mean\<bar> \<le> 1 / 200 + mean / 2 ^ 53)"
proof -
  have r: "analyze_code parse code fname =
     Json \<lparr>filename = fname, language = ''javascript'',
           total_loc = count_lines code, total_nloc = count_nonblank code,
           function_count = length fs,
           complexity_avg = (if fs = [] then Num 0 else Num (toFixed2 (double_of mean))),
           complexity_max = Max (set (0 # map CC fs)),
           functions = map flat_entry fs\<rparr>"
    unfolding fs_def mean_def using assms(3-5) by (rule analyze_code_report)
  have p: "\<forall>f \<in> set fs. 0 \<le> CC f"
    unfolding fs_def using collect_nonneg(1) by blast
  have m: "0 \<le> mean"
    unfolding mean_def using mean_nonneg [OF p] by (simp add: fs_def)
  have x: "Max (set (0 # map CC fs)) = Max (set (map CC fs))" if "fs \<noteq> []"
    using that p by (intro Max_with_zero) auto
  show ?thesis
    using r x toFixed2_hundredths [of "double_of mean"] average_error [OF m]
    by (simp add: flat_entry_def)
qed

theorem inline_report_is_flattened_witness:
  "analyze_code (\<lambda>_. Inr threeFunctions) ''x'' ''a.js'' =
     Json \<lparr>filename = ''a.js'', language = ''javascript'', total_loc = 1, total_nloc = 1,
           function_count = 3, complexity_avg = Num (233 / 100), complexity_max = 3,
           functions =
             [\<lparr>cyclomatic_complexity = 3, nloc = 1, token_count = 0,
                name = Some ''testNested'', long_name = Some ''testNested'',
                start_line = None, end_line = 0, max_nesting_depth = 0\<rparr>,
              \<lparr>cyclomatic_complexity = 2, nloc = 1, token_count = 0,
                name = Some ''testElseIf'', long_name = Some ''testElseIf'',
                start_line = None, end_line = 0, max_nesting_depth = 0\<rparr>,
              \<lparr>cyclomatic_complexity = 2, nloc = 1, token_count = 0,
                name = Some ''testBool'', long_name = Some ''testBool'',
                start_line = None, end_line = 0, max_nesting_depth = 0\<rparr>]\<rparr>"
proof -
  have a: "''x'' \<noteq> []" "''a.js'' \<noteq> []" "(\<lambda>_. Inr threeFunctions) ''x'' = Inr threeFunctions"
    by simp_all
  show ?thesis
    unfolding inline_report_is_flattened [OF a, THEN conjunct1]
    by code_simp
qed

lemma division_by_zero_is_not_zero:
  "parse_fixed2 (js_divide 0 0) = NaN"
  "0 < a \<Longrightarrow> parse_fixed2 (js_divide a 0) = PosInfinity"
  "a < 0 \<Longrightarrow> parse_fixed2 (js_divide a 0) = NegInfinity"
  by (simp_all add: js_divide_def parse_fixed2_def)

text \<open>
  C10. When the analysed source has no function, the report has \<^verbatim>\<open>complexity_avg\<close> 0
  and \<^verbatim>\<open>complexity_max\<close> 0. The zero comes from the branch of the test
  \<^verbatim>\<open>function_count > 0\<close> that does not divide: the division itself, \<^verbatim>\<open>0 / 0\<close> with no
  function, would give \<^verbatim>\<open>NaN\<close>, which \<^verbatim>\<open>toFixed\<close> and \<^verbatim>\<open>parseFloat\<close> hand on, and not
  0. So the handler never divides by zero.
\<close>

theorem no_functions_report_zero:
  assumes "code \<noteq> []" "fname \<noteq> []" "parse code = Inr ast" "collect code [] ast = []"
  shows "analyze_code parse code fname =
     Json \<lparr>filename = fname, language = ''javascript'',
           total_loc = count_lines code, total_nloc = count_nonblank code,
           function_count = 0, complexity_avg = Num 0, complexity_max = 0, functions = []\<rparr> \<and>
   parse_fixed2 (js_divide (sum_list (map CC (collect code [] ast)))
     (length (collect code [] ast))) = NaN \<and>
   NaN \<noteq> Num 0"
  using assms
  by (simp add: analyze_code_def calculateMetrics_def js_divide_def parse_fixed2_def)

theorem no_functions_report_zero_witness:
  "collect ''x;'' [] noFunctions = [] \<and>
   analyze_code (\<lambda>_. Inr noFunctions) ''x;'' ''a.js'' =
     Json \<lparr>filename = ''a.js'', language = ''javascript'', total_loc = 1, total_nloc = 1,
           function_count = 0, complexity_avg = Num 0, complexity_max = 0, functions = []\<rparr> \<and>
   parse_fixed2 (js_divide (sum_list (map CC (collect ''x;'' [] noFunctions)))
     (length (collect ''x;'' [] noFunctions))) = NaN"
proof -
  have a: "''x;'' \<noteq> []" "''a.js'' \<noteq> []" "(\<lambda>_. Inr noFunctions) ''x;'' = Inr noFunctions"
    by simp_all
  have c: "collect ''x;'' [] noFunctions = []"
    by code_simp
  have l: "count_lines ''x;'' = 1" "count_nonblank ''x;'' = 1"
    by code_simp+
  show ?thesis
    using c no_functions_report_zero [OF a c] by (simp add: l)
qed

end
